theory Spec2Isabelle
  imports Main "HOL-Library.Word" "HOL-Library.Signed_Division"
begin

unbundle bit_operations_syntax

section \<open>Machine types of the Go source\<close>

text \<open>
  The decoder is \<^verbatim>\<open>src/decode.go\<close>. Go's \<^verbatim>\<open>byte\<close> is an 8-bit word, \<^verbatim>\<open>int16\<close> a
  16-bit word read in two's complement, and \<^verbatim>\<open>int\<close> and \<^verbatim>\<open>uintptr\<close> are 64-bit words
  (the library is loaded with \<^verbatim>\<open>syscall.LoadDLL\<close>, a 64-bit Windows target).
  Arithmetic on them wraps around.
\<close>

type_synonym byte = "8 word"
type_synonym int16 = "16 word"
type_synonym go_int = "64 word"
type_synonym uintptr = "64 word"

definition to_byte :: "go_int \<Rightarrow> byte" where
  \<comment> \<open>the conversion \<^verbatim>\<open>byte(x)\<close>: the low eight bits\<close>
  "to_byte x = ucast x"

definition len :: "'a list \<Rightarrow> go_int" where
  \<comment> \<open>\<^verbatim>\<open>len(xs)\<close> as a Go \<^verbatim>\<open>int\<close>\<close>
  "len xs = word_of_nat (length xs)"

definition go_div :: "go_int \<Rightarrow> go_int \<Rightarrow> go_int" where
  \<comment> \<open>Go's \<^verbatim>\<open>/\<close> on \<^verbatim>\<open>int\<close>: the quotient truncated towards zero (the only divisor
      in the source is the constant 8)\<close>
  "go_div x y = word_of_int (sint x sdiv sint y)"

definition asr :: "go_int \<Rightarrow> nat \<Rightarrow> go_int" where
  \<comment> \<open>Go's \<^verbatim>\<open>>>\<close> on a signed \<^verbatim>\<open>int\<close>: the arithmetic shift\<close>
  "asr x k = signed_drop_bit k x"

definition byte_of_char :: "char \<Rightarrow> byte" where
  "byte_of_char c = word_of_nat (of_char c)"

definition bytes_of_string :: "string \<Rightarrow> byte list" where
  "bytes_of_string s = map byte_of_char s"

section \<open>Constants\<close>

definition STX :: byte where
  "STX = 2"

definition Header :: "byte list" where
  "Header = bytes_of_string ''#!SILK_V3''"

definition HeaderLen :: nat where
  "HeaderLen = length Header"

definition FRAME_LENGTH_MS :: nat where
  "FRAME_LENGTH_MS = 20"

definition MAX_API_FS_KHZ :: nat where
  "MAX_API_FS_KHZ = 48"

definition frameSize :: nat where
  \<comment> \<open>\<^verbatim>\<open>(FRAME_LENGTH_MS * MAX_API_FS_KHZ) << 1\<close>\<close>
  "frameSize = push_bit 1 (FRAME_LENGTH_MS * MAX_API_FS_KHZ)"

section \<open>The buffered reader\<close>

text \<open>
  \<^verbatim>\<open>Decode\<close> reads its \<^verbatim>\<open>io.Reader\<close> through a \<^verbatim>\<open>bufio.Reader\<close> and stops reading at
  the first error. What it can observe of a source is therefore the bytes the source
  delivers and the error the source reports once they are used up: \<open>EOF\<close> for a
  source that simply ends, or something else. \<open>errors.Is(err, io.EOF)\<close> holds of
  \<open>EOF\<close> only.
\<close>

datatype io_error = EOF | ErrUnexpectedEOF | OtherError

record reader =
  pending :: "byte list"
  at_end :: io_error

definition Peek1 :: "reader \<Rightarrow> io_error + byte" where
  \<comment> \<open>\<^verbatim>\<open>reader.Peek(1)\<close> and, when it succeeds, \<^verbatim>\<open>first[0]\<close>; nothing is consumed\<close>
  "Peek1 r = (case pending r of [] \<Rightarrow> Inl (at_end r) | b # _ \<Rightarrow> Inr b)"

definition ReadByte :: "reader \<Rightarrow> (io_error + byte) \<times> reader" where
  "ReadByte r =
     (case pending r of
        [] \<Rightarrow> (Inl (at_end r), r)
      | b # bs \<Rightarrow> (Inr b, r\<lparr>pending := bs\<rparr>))"

definition ReadFull :: "reader \<Rightarrow> nat \<Rightarrow> byte list \<times> io_error option \<times> reader" where
  \<comment> \<open>\<^verbatim>\<open>io.ReadFull(reader, buf)\<close> with \<^verbatim>\<open>len(buf) = n\<close>: the bytes stored in the
      buffer (their number is the count returned) and the error. The error is the
      source's own when no byte was read, and \<open>ErrUnexpectedEOF\<close> when the source
      ends after some but not all of the \<open>n\<close> bytes.\<close>
  "ReadFull r n =
     (if n \<le> length (pending r)
      then (take n (pending r), None, r\<lparr>pending := drop n (pending r)\<rparr>)
      else if pending r = [] then ([], Some (at_end r), r)
      else (pending r,
            Some (if at_end r = EOF then ErrUnexpectedEOF else at_end r),
            r\<lparr>pending := []\<rparr>))"

fun le_int16 :: "byte list \<Rightarrow> int16" where
  \<comment> \<open>\<^verbatim>\<open>binary.LittleEndian\<close> decoding of two bytes\<close>
  "le_int16 (b0 # b1 # _) = ucast b0 OR push_bit 8 (ucast b1)"
| "le_int16 _ = 0"

definition binary_Read_int16 :: "reader \<Rightarrow> (io_error + int16) \<times> reader" where
  \<comment> \<open>\<^verbatim>\<open>binary.Read(reader, binary.LittleEndian, &nByte)\<close>: \<^verbatim>\<open>io.ReadFull\<close> of two
      bytes, whose error is returned as it is\<close>
  "binary_Read_int16 r =
     (case ReadFull r 2 of
        (bs, Some err, r') \<Rightarrow> (Inl err, r')
      | (bs, None, r') \<Rightarrow> (Inr (le_int16 bs), r'))"

section \<open>Errors\<close>

text \<open>
  One constructor for each \<^verbatim>\<open>fmt.Errorf\<close> of the source, for the errors of the native
  library, and for the run-time panics of the Go code.
\<close>

datatype silk_error =
    PeekFirstByteFailed io_error
  | ReadFirstByteFailed io_error
  | InvalidFirstByte byte
  | ReadHeaderFailed io_error
  | InvalidHeaderLength nat
  | InvalidHeader "byte list"
  | ReadBlockSizeFailed io_error
  | ReadBlockFailed io_error
  | InvalidBlock
  | ProcNotFound string
  | CallFailed string
  | PanicNilPointer
  | PanicIndexOutOfRange
  | PanicSliceBounds

section \<open>Header validation\<close>

definition checkHeader :: "reader \<Rightarrow> silk_error option \<times> reader" where
  "checkHeader r =
     (case Peek1 r of
        Inl err \<Rightarrow> (Some (PeekFirstByteFailed err), r)
      | Inr first \<Rightarrow>
          (case (if first = STX
                 then (case ReadByte r of
                         (Inl err, r') \<Rightarrow> (Some (ReadFirstByteFailed err), r')
                       | (Inr stx, r') \<Rightarrow>
                           if stx \<noteq> STX then (Some (InvalidFirstByte stx), r')
                           else (None, r'))
                 else (None, r)) of
             (Some e, r1) \<Rightarrow> (Some e, r1)
           | (None, r1) \<Rightarrow>
               (case ReadFull r1 HeaderLen of
                  (header, Some err, r2) \<Rightarrow> (Some (ReadHeaderFailed err), r2)
                | (header, None, r2) \<Rightarrow>
                    if length header \<noteq> HeaderLen
                    then (Some (InvalidHeaderLength (length header)), r2)
                    else if header \<noteq> Header then (Some (InvalidHeader header), r2)
                    else (None, r2))))"

section \<open>The native library\<close>

text \<open>
  \<^verbatim>\<open>dllsilk.dll\<close> is outside the repository. It is a parameter of the model: a state
  \<open>'d\<close> of its own, the procedure names \<^verbatim>\<open>FindProc\<close> resolves, and for each procedure
  the result of a call. The flag of a call is
  \<^verbatim>\<open>err != nil && !errors.Is(err, windows.SEVERITY_SUCCESS)\<close>. The native \<^verbatim>\<open>Decode\<close>
  is given the input bytes, their number, the output buffer and the length cell; it
  returns the bytes it stores at the start of the output buffer and the new value of
  the length cell.
\<close>

record 'd DLL =
  has_proc :: "string \<Rightarrow> bool"
  call_CreateDecoder :: "'d \<Rightarrow> uintptr \<times> bool \<times> 'd"
  call_CloseDecoder :: "uintptr \<Rightarrow> 'd \<Rightarrow> bool \<times> 'd"
  call_setSampleRate :: "uintptr \<Rightarrow> uintptr \<Rightarrow> 'd \<Rightarrow> bool \<times> 'd"
  call_setFramesPerPacket :: "uintptr \<Rightarrow> uintptr \<Rightarrow> 'd \<Rightarrow> bool \<times> 'd"
  call_Decode ::
    "uintptr \<Rightarrow> byte list \<Rightarrow> uintptr \<Rightarrow> byte list \<Rightarrow> int16 \<Rightarrow> 'd
      \<Rightarrow> bool \<times> byte list \<times> int16 \<times> 'd"

text \<open>The calls made into the library, in order, are recorded beside its state.\<close>

datatype dll_call =
    CallCreateDecoder
  | CallCloseDecoder uintptr
  | CallSetSampleRate uintptr uintptr
  | CallSetFramesPerPacket uintptr uintptr
  | CallDecode uintptr "byte list" uintptr int16

record 'd process =
  native :: 'd
  trace :: "dll_call list"

text \<open>
  The struct \<^verbatim>\<open>silk\<close>. \<^verbatim>\<open>NewSilkDecoder\<close> drops the error of \<^verbatim>\<open>init\<close>, so the field
  \<^verbatim>\<open>dll\<close> is nil when \<^verbatim>\<open>LoadDLL\<close> failed; its argument here is what \<^verbatim>\<open>LoadDLL\<close>
  found.
\<close>

record 'd silk =
  dll :: "'d DLL option"

definition NewSilkDecoder :: "'d DLL option \<Rightarrow> 'd silk" where
  "NewSilkDecoder loaded = \<lparr>dll = loaded\<rparr>"

definition FindProc :: "'d silk \<Rightarrow> string \<Rightarrow> silk_error + 'd DLL" where
  "FindProc s name =
     (case dll s of
        None \<Rightarrow> Inl PanicNilPointer
      | Some d \<Rightarrow> if has_proc d name then Inr d else Inl (ProcNotFound name))"

definition logged :: "'d process \<Rightarrow> 'd \<Rightarrow> dll_call \<Rightarrow> 'd process" where
  "logged w d' c = \<lparr>native = d', trace = trace w @ [c]\<rparr>"

definition createDecoder :: "'d silk \<Rightarrow> 'd process \<Rightarrow> (silk_error + uintptr) \<times> 'd process" where
  "createDecoder s w =
     (case FindProc s ''CreateDecoder'' of
        Inl e \<Rightarrow> (Inl e, w)
      | Inr f \<Rightarrow>
          (case call_CreateDecoder f (native w) of
             (handle, failed, d') \<Rightarrow>
               if failed then (Inl (CallFailed ''CreateDecoder''), logged w d' CallCreateDecoder)
               else (Inr handle, logged w d' CallCreateDecoder)))"

definition closeDecoder :: "'d silk \<Rightarrow> uintptr \<Rightarrow> 'd process \<Rightarrow> silk_error option \<times> 'd process" where
  "closeDecoder s handle w =
     (case FindProc s ''CloseDecoder'' of
        Inl e \<Rightarrow> (Some e, w)
      | Inr f \<Rightarrow>
          (case call_CloseDecoder f handle (native w) of
             (failed, d') \<Rightarrow>
               if failed then (Some (CallFailed ''CloseDecoder''), logged w d' (CallCloseDecoder handle))
               else (None, logged w d' (CallCloseDecoder handle))))"

definition setSampleRate ::
  "'d silk \<Rightarrow> uintptr \<Rightarrow> go_int \<Rightarrow> 'd process \<Rightarrow> silk_error option \<times> 'd process" where
  "setSampleRate s handle sample w =
     (case FindProc s ''setSampleRate'' of
        Inl e \<Rightarrow> (Some e, w)
      | Inr f \<Rightarrow>
          (case call_setSampleRate f handle sample (native w) of
             (failed, d') \<Rightarrow>
               if failed
               then (Some (CallFailed ''setSampleRate''), logged w d' (CallSetSampleRate handle sample))
               else (None, logged w d' (CallSetSampleRate handle sample))))"

definition setFramesPerPacket ::
  "'d silk \<Rightarrow> uintptr \<Rightarrow> go_int \<Rightarrow> 'd process \<Rightarrow> silk_error option \<times> 'd process" where
  "setFramesPerPacket s handle perPacket w =
     (case FindProc s ''setFramesPerPacket'' of
        Inl e \<Rightarrow> (Some e, w)
      | Inr f \<Rightarrow>
          (case call_setFramesPerPacket f handle perPacket (native w) of
             (failed, d') \<Rightarrow>
               if failed
               then (Some (CallFailed ''setFramesPerPacket''),
                     logged w d' (CallSetFramesPerPacket handle perPacket))
               else (None, logged w d' (CallSetFramesPerPacket handle perPacket))))"

definition decode ::
  "'d silk \<Rightarrow> uintptr \<Rightarrow> byte list \<Rightarrow> go_int \<Rightarrow> byte list \<Rightarrow> int16 \<Rightarrow> 'd process
    \<Rightarrow> (silk_error + go_int) \<times> byte list \<times> 'd process" where
  \<comment> \<open>The result, the output buffer after the call, and the process. \<^verbatim>\<open>&inData[0]\<close>
      and \<^verbatim>\<open>&outData[0]\<close> panic on an empty slice. The length returned is
      \<^verbatim>\<open>int(outDataLength * 2)\<close>: the product in \<^verbatim>\<open>int16\<close>, then sign-extended.\<close>
  "decode s handle inData inDataLength outData outDataLength w =
     (case FindProc s ''Decode'' of
        Inl e \<Rightarrow> (Inl e, outData, w)
      | Inr f \<Rightarrow>
          if inData = [] \<or> outData = [] then (Inl PanicIndexOutOfRange, outData, w)
          else
            (case call_Decode f handle inData inDataLength outData outDataLength (native w) of
               (failed, written, outDataLength', d') \<Rightarrow>
                 let outData' = take (length outData) (written @ drop (length written) outData);
                     w' = logged w d' (CallDecode handle inData inDataLength outDataLength)
                 in if failed then (Inl (CallFailed ''Decode''), outData', w')
                    else (Inr (scast (outDataLength' * 2)), outData', w')))"

section \<open>The decode loop\<close>

text \<open>
  The variables of the \<^verbatim>\<open>for\<close> loop of \<^verbatim>\<open>Decode\<close>: the reader, the payload buffer
  \<^verbatim>\<open>in\<close>, the sample buffer \<^verbatim>\<open>buf\<close>, the bytes written to \<^verbatim>\<open>out\<close>, and the process.
  (\<^verbatim>\<open>blockIndex\<close> is counted and never read.)
\<close>

record 'd loop_state =
  ls_reader :: reader
  ls_in :: "byte list"
  ls_buf :: "byte list"
  ls_out :: "byte list"
  ls_proc :: "'d process"

datatype control = Continue | Break | Return silk_error

definition Decode_iter :: "'d silk \<Rightarrow> uintptr \<Rightarrow> 'd loop_state \<Rightarrow> control \<times> 'd loop_state" where
  \<comment> \<open>One pass through the loop body: how it leaves the body, and the variables then.\<close>
  "Decode_iter s handle st =
     (case binary_Read_int16 (ls_reader st) of
        (Inl err, r1) \<Rightarrow>
          if err = EOF then (Break, st\<lparr>ls_reader := r1\<rparr>)
          else (Return (ReadBlockSizeFailed err), st\<lparr>ls_reader := r1\<rparr>)
      | (Inr nByte, r1) \<Rightarrow>
          if sint nByte < 0 then (Break, st\<lparr>ls_reader := r1\<rparr>)
          else
            let in1 = (if int (length (ls_in st)) < sint nByte
                       then replicate (nat (sint nByte)) 0 else ls_in st)
            in (case ReadFull r1 (nat (sint nByte)) of
                  (got, Some err, r2) \<Rightarrow>
                    let st2 = st\<lparr>ls_reader := r2, ls_in := got @ drop (length got) in1\<rparr>
                    in if err = EOF then (Break, st2) else (Return (ReadBlockFailed err), st2)
                | (got, None, r2) \<Rightarrow>
                    let n = length got;
                        in2 = got @ drop n in1;
                        st2 = st\<lparr>ls_reader := r2, ls_in := in2\<rparr>
                    in if int n \<noteq> sint nByte then (Return InvalidBlock, st2)
                       else
                         (case decode s handle (take n in2) (word_of_nat n) (ls_buf st) nByte
                                 (ls_proc st) of
                            (Inl e, buf', w') \<Rightarrow> (Return e, st2\<lparr>ls_buf := buf', ls_proc := w'\<rparr>)
                          | (Inr length', buf', w') \<Rightarrow>
                              if sint length' < 0 \<or> int (length buf') < sint length'
                              then (Return PanicSliceBounds, st2\<lparr>ls_buf := buf', ls_proc := w'\<rparr>)
                              else (Continue,
                                    st2\<lparr>ls_buf := buf', ls_proc := w',
                                        ls_out := ls_out st @ take (nat (sint length')) buf'\<rparr>))))"

lemma Decode_iter_Continue_consumes:
  assumes "Decode_iter s handle st = (Continue, st')"
  shows "length (pending (ls_reader st')) < length (pending (ls_reader st))"
  using assms
  by (auto simp add: Decode_iter_def binary_Read_int16_def ReadFull_def Let_def
      split: prod.splits sum.splits if_splits option.splits)

function Decode_loop ::
  "'d silk \<Rightarrow> uintptr \<Rightarrow> 'd loop_state \<Rightarrow> (silk_error + byte list) \<times> 'd process" where
  "Decode_loop s handle st =
     (case Decode_iter s handle st of
        (Continue, st') \<Rightarrow> Decode_loop s handle st'
      | (Break, st') \<Rightarrow> (Inr (ls_out st'), ls_proc st')
      | (Return e, st') \<Rightarrow> (Inl e, ls_proc st'))"
  by pat_completeness auto
termination
  by (relation "measure (\<lambda>(s, handle, st). length (pending (ls_reader st)))")
    (auto dest: Decode_iter_Continue_consumes [OF sym])

definition Decode :: "'d silk \<Rightarrow> reader \<Rightarrow> 'd process \<Rightarrow> (silk_error + byte list) \<times> 'd process" where
  "Decode s src w =
     (case checkHeader src of
        (Some err, reader) \<Rightarrow> (Inl err, w)
      | (None, reader) \<Rightarrow>
          (case createDecoder s w of
             (Inl err, w1) \<Rightarrow> (Inl err, w1)
           | (Inr handle, w1) \<Rightarrow>
               (case setSampleRate s handle 16000 w1 of
                  (Some err, w2) \<Rightarrow> (Inl err, w2)
                | (None, w2) \<Rightarrow>
                    (case setFramesPerPacket s handle 1 w2 of
                       (Some err, w3) \<Rightarrow> (Inl err, w3)
                     | (None, w3) \<Rightarrow>
                         Decode_loop s handle
                           \<lparr>ls_reader = reader,
                            ls_in = replicate 1024 0,
                            ls_buf = replicate (frameSize * 2) 0,
                            ls_out = [],
                            ls_proc = w3\<rparr>))))"

section \<open>The WAV container\<close>

definition pcmToWav :: "byte list \<Rightarrow> go_int \<Rightarrow> go_int \<Rightarrow> byte list" where
  "pcmToWav dst numchannel saplerate =
     (let byteDst = dst;
          longSampleRate = saplerate;
          byteRate = go_div (16 * saplerate * numchannel) 8;
          totalAudioLen = len byteDst;
          totalDataLen = totalAudioLen + 36;
          header =
            [byte_of_char CHR ''R'', byte_of_char CHR ''I'', byte_of_char CHR ''F'',
             byte_of_char CHR ''F'',
             to_byte (totalDataLen AND 0xff),
             to_byte (asr totalDataLen 8 AND 0xff),
             to_byte (asr totalDataLen 16 AND 0xff),
             to_byte (asr totalDataLen 24 AND 0xff),
             byte_of_char CHR ''W'', byte_of_char CHR ''A'', byte_of_char CHR ''V'',
             byte_of_char CHR ''E'',
             byte_of_char CHR ''f'', byte_of_char CHR ''m'', byte_of_char CHR ''t'',
             byte_of_char CHR '' '',
             16, 0, 0, 0,
             1, 0,
             to_byte numchannel, 0,
             to_byte (longSampleRate AND 0xff),
             to_byte (asr longSampleRate 8 AND 0xff),
             to_byte (asr longSampleRate 16 AND 0xff),
             to_byte (asr longSampleRate 24 AND 0xff),
             to_byte (byteRate AND 0xff),
             to_byte (asr byteRate 8 AND 0xff),
             to_byte (asr byteRate 16 AND 0xff),
             to_byte (asr byteRate 24 AND 0xff),
             to_byte (go_div (2 * 16) 8), 0,
             16, 0,
             byte_of_char CHR ''d'', byte_of_char CHR ''a'', byte_of_char CHR ''t'',
             byte_of_char CHR ''a'',
             to_byte (totalAudioLen AND 0xff),
             to_byte (asr totalAudioLen 8 AND 0xff),
             to_byte (asr totalAudioLen 16 AND 0xff),
             to_byte (asr totalAudioLen 24 AND 0xff)];
          headerDst = header
      in headerDst @ dst)"

definition wav_header :: "byte list \<Rightarrow> go_int \<Rightarrow> go_int \<Rightarrow> byte list" where
  \<comment> \<open>the 44 bytes \<^verbatim>\<open>pcmToWav\<close> puts in front of the samples\<close>
  "wav_header dst numchannel saplerate = take 44 (pcmToWav dst numchannel saplerate)"

definition le32 :: "int \<Rightarrow> byte list" where
  \<comment> \<open>the four low-order bytes of an integer, least significant first\<close>
  "le32 n = [word_of_int n, word_of_int (n div 2 ^ 8), word_of_int (n div 2 ^ 16),
             word_of_int (n div 2 ^ 24)]"

fun le_value :: "byte list \<Rightarrow> int" where
  \<comment> \<open>the number a byte sequence is in little-endian order\<close>
  "le_value [] = 0"
| "le_value (b # bs) = uint b + 256 * le_value bs"

section \<open>The conversion\<close>

definition SilkToWav ::
  "'d DLL option \<Rightarrow> reader \<Rightarrow> 'd process \<Rightarrow> (silk_error + byte list) \<times> 'd process" where
  \<comment> \<open>The first argument is what \<^verbatim>\<open>LoadDLL\<close> finds when \<^verbatim>\<open>NewSilkDecoder\<close> runs; the
      \<^verbatim>\<open>io.Reader\<close> returned is given by the bytes it delivers.\<close>
  "SilkToWav loaded src w =
     (let decoder = NewSilkDecoder loaded
      in case Decode decoder src w of
           (Inl err, w') \<Rightarrow> (Inl err, w')
         | (Inr data, w') \<Rightarrow>
             let rData = pcmToWav data 2 16000 in (Inr rData, w'))"

section \<open>Vocabulary of the statements\<close>

text \<open>The errors \<^verbatim>\<open>checkHeader\<close> can return.\<close>

fun is_header_error :: "silk_error \<Rightarrow> bool" where
  "is_header_error (PeekFirstByteFailed _) = True"
| "is_header_error (ReadFirstByteFailed _) = True"
| "is_header_error (InvalidFirstByte _) = True"
| "is_header_error (ReadHeaderFailed _) = True"
| "is_header_error (InvalidHeaderLength _) = True"
| "is_header_error (InvalidHeader _) = True"
| "is_header_error _ = False"

text \<open>
  What \<^verbatim>\<open>checkHeader\<close> does with the bytes \<open>b\<close> left after the optional marker
  (\<open>checkHeader_marker\<close> and \<open>checkHeader_plain\<close> prove it).
\<close>

definition read_magic :: "byte list \<Rightarrow> io_error \<Rightarrow> silk_error option \<times> reader" where
  "read_magic b e =
     (if 9 \<le> length b
      then (if take 9 b = Header then None else Some (InvalidHeader (take 9 b)),
            \<lparr>pending = drop 9 b, at_end = e\<rparr>)
      else if b = [] then (Some (ReadHeaderFailed e), \<lparr>pending = [], at_end = e\<rparr>)
      else (Some (ReadHeaderFailed (if e = EOF then ErrUnexpectedEOF else e)),
            \<lparr>pending = [], at_end = e\<rparr>))"

fun is_close_call :: "dll_call \<Rightarrow> bool" where
  "is_close_call (CallCloseDecoder handle) = True"
| "is_close_call _ = False"

fun is_decode_call :: "uintptr \<Rightarrow> dll_call \<Rightarrow> bool" where
  "is_decode_call h (CallDecode handle inData inDataLength outDataLength) = (handle = h)"
| "is_decode_call h _ = False"


section \<open>A test library\<close>

text \<open>
  A library for the concrete runs: every procedure is found and every call succeeds, the
  session handle is 1, and \<^verbatim>\<open>Decode\<close> stores the same bytes and reports the same count
  for every block.
\<close>

definition stub_DLL :: "byte list \<Rightarrow> int16 \<Rightarrow> unit DLL" where
  "stub_DLL samples count =
     \<lparr>has_proc = (\<lambda>name. True),
      call_CreateDecoder = (\<lambda>d. (1, False, d)),
      call_CloseDecoder = (\<lambda>handle d. (False, d)),
      call_setSampleRate = (\<lambda>handle sample d. (False, d)),
      call_setFramesPerPacket = (\<lambda>handle perPacket d. (False, d)),
      call_Decode = (\<lambda>handle inData inDataLength outData outDataLength d.
                       (False, samples, count, d))\<rparr>"

definition ten_samples :: "unit DLL" where
  "ten_samples = stub_DLL (replicate 20 0x11) 10"

definition wrapping_count :: "unit DLL" where
  "wrapping_count = stub_DLL (replicate 20 0x11) 0x8000"

definition idle :: "unit process" where
  "idle = \<lparr>native = (), trace = []\<rparr>"

text \<open>The variables of the loop at its first pass, for a source that ends with \<open>EOF\<close>.\<close>

definition fresh :: "byte list \<Rightarrow> 'd process \<Rightarrow> 'd loop_state" where
  "fresh bs w =
     \<lparr>ls_reader = \<lparr>pending = bs, at_end = EOF\<rparr>, ls_in = replicate 1024 0,
      ls_buf = replicate (frameSize * 2) 0, ls_out = [], ls_proc = w\<rparr>"

declare Decode_loop.simps [simp del]

section \<open>Properties\<close>

subsection \<open>Bytes of a 64-bit integer\<close>

lemma to_byte_sint: "to_byte x = word_of_int (sint x)"
  unfolding to_byte_def
  by (rule bit_word_eqI) (auto simp add: bit_simps bit_sint_iff)

lemma mask8_go_int: "(0xff :: go_int) = mask 8"
  by (simp add: mask_eq_exp_minus_1)

lemma to_byte_asr_and: "to_byte (asr x k AND 0xff) = word_of_int (sint x div 2 ^ k)"
proof -
  have "to_byte (signed_drop_bit k x AND 0xff) = to_byte (signed_drop_bit k x)"
    unfolding to_byte_def mask8_go_int
    by (rule bit_word_eqI) (simp add: bit_and_iff bit_mask_iff bit_ucast_iff)
  then show ?thesis
    by (simp add: asr_def to_byte_sint sint_signed_drop_bit_eq drop_bit_eq_div)
qed

lemma to_byte_and: "to_byte (x AND 0xff) = word_of_int (sint x)"
  using to_byte_asr_and [of x 0] by (simp add: asr_def)

lemma byte_low_cong:
  assumes "take_bit 32 x = take_bit 32 (y::int)" and "k + 8 \<le> 32"
  shows "(word_of_int (x div 2 ^ k) :: byte) = word_of_int (y div 2 ^ k)"
proof -
  have "take_bit 8 (drop_bit k x) = drop_bit k (take_bit (k + 8) (take_bit 32 x))"
    using assms(2) by (simp add: take_bit_drop_bit min_def add.commute)
  also have "\<dots> = drop_bit k (take_bit (k + 8) (take_bit 32 y))"
    using assms(1) by simp
  also have "\<dots> = take_bit 8 (drop_bit k y)"
    using assms(2) by (simp add: take_bit_drop_bit min_def add.commute)
  finally show ?thesis
    by (simp add: word_of_int_eq_iff drop_bit_eq_div)
qed

lemma field32:
  fixes x :: go_int
  assumes "take_bit 32 (sint x) = take_bit 32 n"
  shows "[to_byte (x AND 0xff), to_byte (asr x 8 AND 0xff), to_byte (asr x 16 AND 0xff),
          to_byte (asr x 24 AND 0xff)] = le32 n"
proof -
  have a: "to_byte (asr x k AND 0xff) = word_of_int (n div 2 ^ k)" if "k + 8 \<le> 32" for k
    using byte_low_cong [OF assms that] by (simp only: to_byte_asr_and)
  have b: "to_byte (x AND 0xff) = word_of_int n"
    using byte_low_cong [OF assms, of 0] by (simp only: to_byte_and) simp
  show ?thesis
    unfolding le32_def using a [of 8] a [of 16] a [of 24] b by simp
qed

lemma sint_low_of_int:
  "take_bit 32 (sint (word_of_int n :: go_int)) = take_bit 32 n"
  by (simp add: sint_sbintrunc' take_bit_signed_take_bit)

lemma totalDataLen_low:
  "take_bit 32 (sint (len dst + 36)) = take_bit 32 (int (length dst) + 36)"
proof -
  have "len dst + 36 = (word_of_int (int (length dst) + 36) :: go_int)"
    by (simp add: len_def)
  then show ?thesis by (simp only: sint_low_of_int)
qed

lemma totalAudioLen_low:
  "take_bit 32 (sint (len dst)) = take_bit 32 (int (length dst))"
proof -
  have "len dst = (word_of_int (int (length dst)) :: go_int)"
    by (simp add: len_def)
  then show ?thesis by (simp only: sint_low_of_int)
qed

lemma byteRate_low:
  fixes sr ch :: go_int
  shows "take_bit 32 (sint (go_div (16 * sr * ch) 8)) = take_bit 32 (16 * sint sr * sint ch sdiv 8)"
proof -
  define P where "P = 16 * sint sr * sint ch"
  define s where "s = sint (16 * sr * ch)"
  have W: "16 * sr * ch = word_of_int P"
    by (simp add: P_def)
  have s64: "take_bit 64 s = take_bit 64 P"
    unfolding s_def W by (simp add: sint_sbintrunc' take_bit_signed_take_bit)
  have low: "take_bit n s = take_bit n P" if "n \<le> 64" for n
  proof -
    have "take_bit n (take_bit 64 s) = take_bit n (take_bit 64 P)"
      by (simp only: s64)
    with that show ?thesis by (simp add: min_def)
  qed
  have P8: "8 dvd P"
    by (simp add: P_def)
  then have "take_bit 3 P = 0"
    by (simp add: take_bit_eq_mod)
  then have "take_bit 3 s = 0"
    using low [of 3] by simp
  then have dvd: "8 dvd s"
    by (simp add: take_bit_eq_mod mod_eq_0_iff_dvd)
  have sd: "s sdiv 8 = s div 8"
    using dvd by (simp add: signed_divide_int_eq_divide_int)
  have Pd: "P sdiv 8 = P div 8"
    using P8 by (simp add: signed_divide_int_eq_divide_int)
  have "take_bit 32 (sint (go_div (16 * sr * ch) 8)) = take_bit 32 (s div 8)"
    by (simp add: go_div_def s_def [symmetric] sd sint_sbintrunc' take_bit_signed_take_bit)
  also have "\<dots> = take_bit 32 (drop_bit 3 s)"
    by (simp add: drop_bit_eq_div)
  also have "\<dots> = drop_bit 3 (take_bit (32 + 3) s)"
    by (simp only: take_bit_drop_bit)
  also have "\<dots> = drop_bit 3 (take_bit (32 + 3) P)"
    using low [of 35] by simp
  also have "\<dots> = take_bit 32 (drop_bit 3 P)"
    by (simp only: take_bit_drop_bit)
  also have "\<dots> = take_bit 32 (P div 8)"
    by (simp add: drop_bit_eq_div)
  finally show ?thesis by (simp add: P_def [symmetric] Pd)
qed

lemma pcmToWav_split:
  "pcmToWav dst c r = wav_header dst c r @ dst" "length (wav_header dst c r) = 44"
  by (simp_all add: wav_header_def pcmToWav_def Let_def)

lemma wav_header_nth:
  "wav_header dst c r ! 4 = to_byte ((len dst + 36) AND 0xff)"
  "wav_header dst c r ! 5 = to_byte (asr (len dst + 36) 8 AND 0xff)"
  "wav_header dst c r ! 6 = to_byte (asr (len dst + 36) 16 AND 0xff)"
  "wav_header dst c r ! 7 = to_byte (asr (len dst + 36) 24 AND 0xff)"
  "wav_header dst c r ! 22 = to_byte c"
  "wav_header dst c r ! 23 = 0"
  "wav_header dst c r ! 24 = to_byte (r AND 0xff)"
  "wav_header dst c r ! 25 = to_byte (asr r 8 AND 0xff)"
  "wav_header dst c r ! 26 = to_byte (asr r 16 AND 0xff)"
  "wav_header dst c r ! 27 = to_byte (asr r 24 AND 0xff)"
  "wav_header dst c r ! 28 = to_byte (go_div (16 * r * c) 8 AND 0xff)"
  "wav_header dst c r ! 29 = to_byte (asr (go_div (16 * r * c) 8) 8 AND 0xff)"
  "wav_header dst c r ! 30 = to_byte (asr (go_div (16 * r * c) 8) 16 AND 0xff)"
  "wav_header dst c r ! 31 = to_byte (asr (go_div (16 * r * c) 8) 24 AND 0xff)"
  "wav_header dst c r ! 32 = to_byte (go_div (2 * 16) 8)"
  "wav_header dst c r ! 33 = 0"
  "wav_header dst c r ! 40 = to_byte (len dst AND 0xff)"
  "wav_header dst c r ! 41 = to_byte (asr (len dst) 8 AND 0xff)"
  "wav_header dst c r ! 42 = to_byte (asr (len dst) 16 AND 0xff)"
  "wav_header dst c r ! 43 = to_byte (asr (len dst) 24 AND 0xff)"
  by (simp_all add: wav_header_def pcmToWav_def Let_def)

lemma wav_header_fields:
  "[wav_header dst c r ! 4, wav_header dst c r ! 5, wav_header dst c r ! 6,
    wav_header dst c r ! 7] = le32 (int (length dst) + 36)"
  "[wav_header dst c r ! 40, wav_header dst c r ! 41, wav_header dst c r ! 42,
    wav_header dst c r ! 43] = le32 (int (length dst))"
  "[wav_header dst c r ! 28, wav_header dst c r ! 29, wav_header dst c r ! 30,
    wav_header dst c r ! 31] = le32 (16 * sint r * sint c sdiv 8)"
  "[wav_header dst c r ! 24, wav_header dst c r ! 25, wav_header dst c r ! 26,
    wav_header dst c r ! 27] = le32 (sint r)"
  unfolding wav_header_nth
  by (rule field32 [OF totalDataLen_low] field32 [OF totalAudioLen_low]
      field32 [OF byteRate_low] field32 [OF refl])+

lemma wav_header_block_align: "wav_header dst c r ! 32 = 4"
  by (simp add: wav_header_nth(15) go_div_def to_byte_def)

lemma pcmToWav_nth_header:
  "i < 44 \<Longrightarrow> pcmToWav dst c r ! i = wav_header dst c r ! i"
  by (simp add: pcmToWav_split nth_append)



text \<open>Read back as a number, the four bytes are the integer modulo \<open>2 ^ 32\<close>.\<close>

lemma le32_value: "le_value (le32 n) = n mod 2 ^ 32"
proof -
  define b0 where "b0 = n mod 256"
  define b1 where "b1 = n div 2 ^ 8 mod 256"
  define b2 where "b2 = n div 2 ^ 16 mod 256"
  define b3 where "b3 = n div 2 ^ 24 mod 256"
  define h1 where "h1 = n div 2 ^ 8 mod 2 ^ 24"
  define h2 where "h2 = n div 2 ^ 16 mod 2 ^ 16"
  have d: "n div 2 ^ 8 div 2 ^ 8 = n div 2 ^ 16" "n div 2 ^ 16 div 2 ^ 8 = n div 2 ^ 24"
    unfolding drop_bit_eq_div [symmetric] by simp_all
  have "n mod (2 ^ 8 * 2 ^ 24) = 2 ^ 8 * (n div 2 ^ 8 mod 2 ^ 24) + n mod 2 ^ 8"
    by (rule zmod_zmult2_eq) simp
  then have s1: "n mod 2 ^ 32 = 256 * h1 + b0"
    by (simp add: h1_def b0_def)
  have "n div 2 ^ 8 mod (2 ^ 8 * 2 ^ 16)
      = 2 ^ 8 * (n div 2 ^ 8 div 2 ^ 8 mod 2 ^ 16) + n div 2 ^ 8 mod 2 ^ 8"
    by (rule zmod_zmult2_eq) simp
  then have s2: "h1 = 256 * h2 + b1"
    unfolding d by (simp add: h1_def h2_def b1_def)
  have "n div 2 ^ 16 mod (2 ^ 8 * 2 ^ 8)
      = 2 ^ 8 * (n div 2 ^ 16 div 2 ^ 8 mod 2 ^ 8) + n div 2 ^ 16 mod 2 ^ 8"
    by (rule zmod_zmult2_eq) simp
  then have s3: "h2 = 256 * b3 + b2"
    unfolding d by (simp add: h2_def b2_def b3_def)
  have u: "uint (word_of_int k :: byte) = k mod 256" for k
    by (simp add: uint_word_of_int)
  have "le_value (le32 n) = b0 + 256 * (b1 + 256 * (b2 + 256 * b3))"
    by (simp add: le32_def u b0_def b1_def b2_def b3_def)
  also have "\<dots> = n mod 2 ^ 32"
    unfolding s1 s2 s3 by (simp add: algebra_simps)
  finally show ?thesis .
qed

subsection \<open>The container writer\<close>

text \<open>
  Claim C4. For every sample buffer \<open>dst\<close> of \<open>L\<close> bytes, every channel count and every
  sample rate, \<^verbatim>\<open>pcmToWav\<close> returns \<open>44 + L\<close> bytes; bytes 4 to 7 are \<open>L + 36\<close> and
  bytes 40 to 43 are \<open>L\<close>, each as four little-endian bytes (\<open>le32\<close>; by
  \<open>le32_value\<close> they read back as the number itself whenever it is below \<open>2 ^ 32\<close>),
  and the bytes from offset 44 on are \<open>dst\<close> unchanged.
\<close>

theorem pcmToWav_sizing:
  "length (pcmToWav dst c r) = 44 + length dst
   \<and> [pcmToWav dst c r ! 4, pcmToWav dst c r ! 5, pcmToWav dst c r ! 6, pcmToWav dst c r ! 7]
       = le32 (int (length dst) + 36)
   \<and> [pcmToWav dst c r ! 40, pcmToWav dst c r ! 41, pcmToWav dst c r ! 42,
        pcmToWav dst c r ! 43] = le32 (int (length dst))
   \<and> drop 44 (pcmToWav dst c r) = dst"
proof -
  have "length (pcmToWav dst c r) = 44 + length dst" "drop 44 (pcmToWav dst c r) = dst"
    by (simp_all add: pcmToWav_split)
  then show ?thesis
    by (simp add: pcmToWav_nth_header wav_header_fields)
qed

text \<open>
  Claim C5. Whatever the channel count, bytes 32 and 33 (block align) are 4 and 0, the
  constant \<^verbatim>\<open>2 * 16 / 8\<close>, and bytes 28 to 31 (byte rate) are the four little-endian
  bytes of \<^verbatim>\<open>16 * saplerate * numchannel / 8\<close>, the product and the truncating
  quotient taken over the integers.
\<close>

theorem pcmToWav_block_align_byte_rate:
  "pcmToWav dst c r ! 32 = 4 \<and> pcmToWav dst c r ! 33 = 0
   \<and> [pcmToWav dst c r ! 28, pcmToWav dst c r ! 29, pcmToWav dst c r ! 30,
        pcmToWav dst c r ! 31] = le32 (16 * sint r * sint c sdiv 8)"
proof -
  have "pcmToWav dst c r ! 32 = 4"
    by (simp add: pcmToWav_nth_header wav_header_block_align)
  moreover have "pcmToWav dst c r ! 33 = 0"
    by (simp add: pcmToWav_nth_header wav_header_nth(16))
  moreover have "[pcmToWav dst c r ! 28, pcmToWav dst c r ! 29, pcmToWav dst c r ! 30,
        pcmToWav dst c r ! 31] = le32 (16 * sint r * sint c sdiv 8)"
    by (simp add: pcmToWav_nth_header wav_header_fields(3))
  ultimately show ?thesis by (intro conjI)
qed

text \<open>
  Claim C9. The channel count is stored in one byte: byte 22 is the count modulo 256
  and byte 23 is 0, so the two-byte channel field differs from a count of 256 or
  more, while the byte rate in bytes 28 to 31 is computed from the whole count.
\<close>

theorem pcmToWav_channel_byte:
  "uint (pcmToWav dst c r ! 22) = sint c mod 256
   \<and> pcmToWav dst c r ! 23 = 0
   \<and> (256 \<le> sint c \<longrightarrow>
        uint (pcmToWav dst c r ! 22) + 256 * uint (pcmToWav dst c r ! 23) \<noteq> sint c)
   \<and> [pcmToWav dst c r ! 28, pcmToWav dst c r ! 29, pcmToWav dst c r ! 30,
        pcmToWav dst c r ! 31] = le32 (16 * sint r * sint c sdiv 8)"
proof -
  have "uint (word_of_int (sint c) :: byte) = sint c mod 256"
    by (simp only: uint_word_of_int) simp
  moreover have "pcmToWav dst c r ! 22 = word_of_int (sint c)"
    by (simp add: pcmToWav_nth_header wav_header_nth(5) to_byte_sint)
  ultimately have b22: "uint (pcmToWav dst c r ! 22) = sint c mod 256"
    by (simp only:)
  have b23: "pcmToWav dst c r ! 23 = 0"
    by (simp add: pcmToWav_nth_header wav_header_nth)
  have "sint c mod 256 < 256"
    by simp
  then have "256 \<le> sint c \<longrightarrow> sint c mod 256 \<noteq> sint c"
    by linarith
  then have "256 \<le> sint c \<longrightarrow>
      uint (pcmToWav dst c r ! 22) + 256 * uint (pcmToWav dst c r ! 23) \<noteq> sint c"
    by (simp add: b22 b23)
  then show ?thesis
    using b22 b23 by (simp add: pcmToWav_nth_header wav_header_fields)
qed

text \<open>A count of 258 at 16000 Hz: the channel field reads 2, the byte rate 8256000.\<close>

theorem pcmToWav_channel_byte_witness:
  "256 \<le> sint (258 :: go_int)
   \<and> uint (pcmToWav [] 258 16000 ! 22) = 2
   \<and> pcmToWav [] 258 16000 ! 23 = 0
   \<and> uint (pcmToWav [] 258 16000 ! 22) + 256 * uint (pcmToWav [] 258 16000 ! 23) = 2
   \<and> [pcmToWav [] 258 16000 ! 28, pcmToWav [] 258 16000 ! 29, pcmToWav [] 258 16000 ! 30,
        pcmToWav [] 258 16000 ! 31] = [0x00, 0xFA, 0x7D, 0x00]"
  using pcmToWav_channel_byte [of "[]" 258 16000]
  by (simp add: le32_def)

subsection \<open>Header validation\<close>

lemma Header_bytes: "Header = [0x23, 0x21, 0x53, 0x49, 0x4C, 0x4B, 0x5F, 0x56, 0x33]"
  by (simp add: Header_def bytes_of_string_def byte_of_char_def)

lemma HeaderLen_9: "HeaderLen = 9"
  by (simp add: HeaderLen_def Header_bytes)

lemma Header_take_9:
  assumes "take 9 b = Header"
  shows "9 \<le> length b" and "\<exists>x b'. b = x # b' \<and> x \<noteq> STX"
proof -
  have "length (take 9 b) = 9"
    using assms by (simp add: Header_bytes)
  then show "9 \<le> length b" by simp
  show "\<exists>x b'. b = x # b' \<and> x \<noteq> STX"
    using assms by (cases b) (auto simp add: Header_bytes STX_def)
qed

lemma checkHeader_marker:
  "checkHeader \<lparr>pending = STX # b, at_end = e\<rparr> = read_magic b e"
  by (simp add: checkHeader_def Peek1_def ReadByte_def ReadFull_def HeaderLen_9 read_magic_def)

lemma checkHeader_plain:
  "x \<noteq> STX \<Longrightarrow> checkHeader \<lparr>pending = x # b, at_end = e\<rparr> = read_magic (x # b) e"
  by (simp add: checkHeader_def Peek1_def ReadFull_def HeaderLen_9 read_magic_def)

lemma read_magic_ok:
  "take 9 b = Header \<Longrightarrow> read_magic b e = (None, \<lparr>pending = drop 9 b, at_end = e\<rparr>)"
  using Header_take_9(1) [of b] by (simp add: read_magic_def)

lemma read_magic_bad:
  assumes "take 9 b \<noteq> Header"
  shows "\<exists>err. fst (read_magic b e) = Some err \<and> is_header_error err"
proof (cases "9 \<le> length b")
  case True
  then have "fst (read_magic b e) = Some (InvalidHeader (take 9 b))"
    unfolding read_magic_def using assms by (simp only: if_True if_False fst_conv)
  then show ?thesis by simp
next
  case False
  then have "fst (read_magic b e) = Some (ReadHeaderFailed e)
      \<or> fst (read_magic b e) = Some (ReadHeaderFailed (if e = EOF then ErrUnexpectedEOF else e))"
    unfolding read_magic_def by (cases "b = []") simp_all
  then show ?thesis by auto
qed

lemma checkHeader_empty:
  "checkHeader \<lparr>pending = [], at_end = e\<rparr> =
     (Some (PeekFirstByteFailed e), \<lparr>pending = [], at_end = e\<rparr>)"
  by (simp add: checkHeader_def Peek1_def)

lemma checkHeader_ok_marker:
  "take 9 b = Header \<Longrightarrow>
     checkHeader \<lparr>pending = STX # b, at_end = e\<rparr> = (None, \<lparr>pending = drop 9 b, at_end = e\<rparr>)"
  by (simp only: checkHeader_marker read_magic_ok)

lemma checkHeader_ok_plain:
  assumes "take 9 b = Header"
  shows "checkHeader \<lparr>pending = b, at_end = e\<rparr> = (None, \<lparr>pending = drop 9 b, at_end = e\<rparr>)"
proof -
  obtain x b' where b: "b = x # b'" "x \<noteq> STX"
    using Header_take_9(2) [OF assms] by blast
  show ?thesis
    using assms unfolding b(1) by (simp only: checkHeader_plain [OF b(2)] read_magic_ok)
qed

lemma checkHeader_bad_marker:
  assumes "take 9 b \<noteq> Header"
  shows "\<exists>err. fst (checkHeader \<lparr>pending = STX # b, at_end = e\<rparr>) = Some err
           \<and> is_header_error err"
  unfolding checkHeader_marker by (rule read_magic_bad [OF assms])

lemma checkHeader_bad_plain:
  assumes "take 9 b \<noteq> Header" and "take 1 b \<noteq> [STX]"
  shows "\<exists>err. fst (checkHeader \<lparr>pending = b, at_end = e\<rparr>) = Some err \<and> is_header_error err"
proof (cases b)
  case Nil
  then show ?thesis by (simp add: checkHeader_empty)
next
  case (Cons x b')
  with assms(2) have "x \<noteq> STX" by simp
  then have "checkHeader \<lparr>pending = x # b', at_end = e\<rparr> = read_magic (x # b') e"
    by (rule checkHeader_plain)
  then show ?thesis
    using read_magic_bad [OF assms(1), of e] unfolding Cons by (simp only:)
qed

lemma Decode_header_error:
  "fst (checkHeader src) = Some err \<Longrightarrow> Decode s src w = (Inl err, w)"
  by (cases "checkHeader src") (simp add: Decode_def)

lemma SilkToWav_header_error:
  "fst (checkHeader src) = Some err \<Longrightarrow> SilkToWav loaded src w = (Inl err, w)"
  by (simp add: SilkToWav_def Decode_header_error)

lemma Decode_same_header:
  "checkHeader src = checkHeader src' \<Longrightarrow> Decode s src w = Decode s src' w"
  by (simp add: Decode_def)

text \<open>
  Claim C3. When \<open>b\<close> starts with the nine bytes of the magic, the conversion of
  \<open>0x02\<close> followed by \<open>b\<close> is the conversion of \<open>b\<close>, the state of the library
  included. A source whose first nine bytes are not the magic and whose first byte is not
  \<open>0x02\<close>, and a source that starts with \<open>0x02\<close> and whose next nine bytes are not
  the magic, fail in \<^verbatim>\<open>checkHeader\<close>; the conversion returns that error and makes no
  call into the library.
\<close>

theorem marker_transparent_and_bad_header_rejected:
  "(take 9 b = Header \<longrightarrow>
      SilkToWav loaded \<lparr>pending = STX # b, at_end = e\<rparr> w
        = SilkToWav loaded \<lparr>pending = b, at_end = e\<rparr> w)
   \<and> (take 9 b' \<noteq> Header \<and> take 1 b' \<noteq> [STX] \<longrightarrow>
        (\<exists>err. fst (checkHeader \<lparr>pending = b', at_end = e\<rparr>) = Some err \<and> is_header_error err
           \<and> SilkToWav loaded \<lparr>pending = b', at_end = e\<rparr> w = (Inl err, w)))
   \<and> (take 9 b'' \<noteq> Header \<longrightarrow>
        (\<exists>err. fst (checkHeader \<lparr>pending = STX # b'', at_end = e\<rparr>) = Some err
           \<and> is_header_error err
           \<and> SilkToWav loaded \<lparr>pending = STX # b'', at_end = e\<rparr> w = (Inl err, w)))"
proof (intro conjI impI)
  assume "take 9 b = Header"
  then have "checkHeader \<lparr>pending = STX # b, at_end = e\<rparr> = checkHeader \<lparr>pending = b, at_end = e\<rparr>"
    by (simp only: checkHeader_ok_marker checkHeader_ok_plain)
  then have "Decode (NewSilkDecoder loaded) \<lparr>pending = STX # b, at_end = e\<rparr> w
        = Decode (NewSilkDecoder loaded) \<lparr>pending = b, at_end = e\<rparr> w"
    by (rule Decode_same_header)
  then show "SilkToWav loaded \<lparr>pending = STX # b, at_end = e\<rparr> w
        = SilkToWav loaded \<lparr>pending = b, at_end = e\<rparr> w"
    by (simp only: SilkToWav_def Let_def)
next
  assume "take 9 b' \<noteq> Header \<and> take 1 b' \<noteq> [STX]"
  then obtain err where "fst (checkHeader \<lparr>pending = b', at_end = e\<rparr>) = Some err"
      "is_header_error err"
    using checkHeader_bad_plain [of b' e] by blast
  then show "\<exists>err. fst (checkHeader \<lparr>pending = b', at_end = e\<rparr>) = Some err \<and> is_header_error err
           \<and> SilkToWav loaded \<lparr>pending = b', at_end = e\<rparr> w = (Inl err, w)"
    using SilkToWav_header_error by blast
next
  assume "take 9 b'' \<noteq> Header"
  then obtain err where "fst (checkHeader \<lparr>pending = STX # b'', at_end = e\<rparr>) = Some err"
      "is_header_error err"
    using checkHeader_bad_marker [of b'' e] by blast
  then show "\<exists>err. fst (checkHeader \<lparr>pending = STX # b'', at_end = e\<rparr>) = Some err
           \<and> is_header_error err
           \<and> SilkToWav loaded \<lparr>pending = STX # b'', at_end = e\<rparr> w = (Inl err, w)"
    using SilkToWav_header_error by blast
qed

text \<open>
  Claim C8. When the byte peeked is \<open>0x02\<close>, \<^verbatim>\<open>ReadByte\<close> returns that byte, so
  \<^verbatim>\<open>checkHeader\<close> never returns the errors "invalid first byte" and "failed to read
  first byte".
\<close>

theorem invalid_first_byte_unreachable:
  "(Peek1 r = Inr STX \<longrightarrow> fst (ReadByte r) = Inr STX)
   \<and> (\<forall>x. fst (checkHeader r) \<noteq> Some (InvalidFirstByte x))
   \<and> (\<forall>err. fst (checkHeader r) \<noteq> Some (ReadFirstByteFailed err))"
  by (auto simp add: checkHeader_def Peek1_def ReadByte_def
      split: list.splits prod.splits option.splits if_splits)

subsection \<open>Reading blocks\<close>

declare le_int16.simps [simp del]

lemma ReadFull_ok:
  "n \<le> length (pending r) \<Longrightarrow>
     ReadFull r n = (take n (pending r), None, r\<lparr>pending := drop n (pending r)\<rparr>)"
  by (simp add: ReadFull_def)

lemma ReadFull_nothing:
  "pending r = [] \<Longrightarrow> 0 < n \<Longrightarrow> ReadFull r n = ([], Some (at_end r), r)"
  by (simp add: ReadFull_def)

lemma ReadFull_short:
  "pending r \<noteq> [] \<Longrightarrow> length (pending r) < n \<Longrightarrow>
     ReadFull r n =
       (pending r, Some (if at_end r = EOF then ErrUnexpectedEOF else at_end r),
        r\<lparr>pending := []\<rparr>)"
  by (simp add: ReadFull_def)

lemma ReadFull_None:
  assumes "ReadFull r n = (got, None, r2)"
  shows "n \<le> length (pending r)" "got = take n (pending r)" "length got = n"
    "r2 = r\<lparr>pending := drop n (pending r)\<rparr>"
  using assms by (auto simp add: ReadFull_def split: if_splits)

lemma binary_Read_int16_empty:
  "pending r = [] \<Longrightarrow> binary_Read_int16 r = (Inl (at_end r), r)"
  by (simp add: binary_Read_int16_def ReadFull_nothing)

lemma binary_Read_int16_half:
  "pending r = [b] \<Longrightarrow>
     binary_Read_int16 r =
       (Inl (if at_end r = EOF then ErrUnexpectedEOF else at_end r), r\<lparr>pending := []\<rparr>)"
  by (simp add: binary_Read_int16_def ReadFull_short)

lemma binary_Read_int16_full:
  "pending r = lo # hi # rest \<Longrightarrow>
     binary_Read_int16 r = (Inr (le_int16 [lo, hi]), r\<lparr>pending := rest\<rparr>)"
  by (simp add: binary_Read_int16_def ReadFull_ok)

lemma Decode_iter_size_error:
  "binary_Read_int16 (ls_reader st) = (Inl err, r1) \<Longrightarrow>
     Decode_iter s h st =
       (if err = EOF then Break else Return (ReadBlockSizeFailed err), st\<lparr>ls_reader := r1\<rparr>)"
  by (simp add: Decode_iter_def)

lemma Decode_iter_negative:
  "binary_Read_int16 (ls_reader st) = (Inr nByte, r1) \<Longrightarrow> sint nByte < 0 \<Longrightarrow>
     Decode_iter s h st = (Break, st\<lparr>ls_reader := r1\<rparr>)"
  by (simp add: Decode_iter_def)

lemma Decode_iter_block_error:
  "binary_Read_int16 (ls_reader st) = (Inr nByte, r1) \<Longrightarrow> 0 \<le> sint nByte \<Longrightarrow>
   ReadFull r1 (nat (sint nByte)) = (got, Some err, r2) \<Longrightarrow>
     fst (Decode_iter s h st) = (if err = EOF then Break else Return (ReadBlockFailed err))"
  by (simp add: Decode_iter_def Let_def)

lemma Decode_iter_block:
  assumes "binary_Read_int16 (ls_reader st) = (Inr nByte, r1)" and "0 \<le> sint nByte"
    and "ReadFull r1 (nat (sint nByte)) = (got, None, r2)"
  shows "Decode_iter s h st =
     (let in1 = (if int (length (ls_in st)) < sint nByte
                 then replicate (nat (sint nByte)) 0 else ls_in st);
          st2 = st\<lparr>ls_reader := r2, ls_in := got @ drop (length got) in1\<rparr>
      in case decode s h got (word_of_nat (length got)) (ls_buf st) nByte (ls_proc st) of
           (Inl e, buf', w') \<Rightarrow> (Return e, st2\<lparr>ls_buf := buf', ls_proc := w'\<rparr>)
         | (Inr length', buf', w') \<Rightarrow>
             if sint length' < 0 \<or> int (length buf') < sint length'
             then (Return PanicSliceBounds, st2\<lparr>ls_buf := buf', ls_proc := w'\<rparr>)
             else (Continue,
                   st2\<lparr>ls_buf := buf', ls_proc := w',
                       ls_out := ls_out st @ take (nat (sint length')) buf'\<rparr>))"
proof -
  have "int (length got) = sint nByte"
    using ReadFull_None(3) [OF assms(3)] assms(2) by simp
  then show ?thesis
    using assms by (simp add: Decode_iter_def Let_def)
qed


lemma Decode_loop_unfold:
  "Decode_loop s h st =
     (case fst (Decode_iter s h st) of
        Continue \<Rightarrow> Decode_loop s h (snd (Decode_iter s h st))
      | Break \<Rightarrow> (Inr (ls_out (snd (Decode_iter s h st))), ls_proc (snd (Decode_iter s h st)))
      | Return e \<Rightarrow> (Inl e, ls_proc (snd (Decode_iter s h st))))"
  by (subst Decode_loop.simps) (cases "Decode_iter s h st", simp split: control.splits)

lemma decode_empty_input:
  "\<exists>e. fst (decode s h [] n outData cell w) = Inl e"
  by (simp add: decode_def split: sum.splits)

lemma decode_frame:
  "fst (snd (decode s h inData n outData cell w)) = outData
   \<or> (\<exists>written. fst (snd (decode s h inData n outData cell w))
        = take (length outData) (written @ drop (length written) outData))"
  by (auto simp add: decode_def Let_def split: sum.splits prod.splits)

lemma decode_buffer_length:
  "length (fst (snd (decode s h inData n outData cell w))) = length outData"
  using decode_frame [of s h inData n outData cell w] by auto

lemma Decode_iter_block_not_Break:
  assumes "binary_Read_int16 (ls_reader st) = (Inr nByte, r1)" and "0 \<le> sint nByte"
    and "ReadFull r1 (nat (sint nByte)) = (got, None, r2)"
  shows "fst (Decode_iter s h st) \<noteq> Break"
  unfolding Decode_iter_block [OF assms]
  by (simp add: Let_def split: prod.splits sum.splits)

lemma Decode_iter_out_unchanged:
  "fst (Decode_iter s h st) \<noteq> Continue \<Longrightarrow> ls_out (snd (Decode_iter s h st)) = ls_out st"
  by (auto simp add: Decode_iter_def Let_def split: prod.splits sum.splits option.splits if_splits)

lemma Decode_iter_reading_keeps_process:
  "fst (Decode_iter s h st) = Break \<Longrightarrow> ls_proc (snd (Decode_iter s h st)) = ls_proc st"
  by (auto simp add: Decode_iter_def Let_def split: prod.splits sum.splits option.splits if_splits)

lemma Decode_loop_Break:
  "fst (Decode_iter s h st) = Break \<Longrightarrow> Decode_loop s h st = (Inr (ls_out st), ls_proc st)"
  by (subst Decode_loop_unfold)
    (simp add: Decode_iter_out_unchanged Decode_iter_reading_keeps_process)

lemma Decode_loop_Return:
  "fst (Decode_iter s h st) = Return e \<Longrightarrow> fst (Decode_loop s h st) = Inl e"
  by (subst Decode_loop_unfold) simp

lemma le_int16_prefix: "le_int16 (lo # hi # rest) = le_int16 [lo, hi]"
  by (simp add: le_int16.simps)

text \<open>
  Claim C1, as the code has it. At any pass of the loop where the length field declares
  \<open>n \<ge> 0\<close> and fewer than \<open>n\<close> payload bytes follow: when at least one payload byte
  is there, \<^verbatim>\<open>Decode\<close> fails with the block-read error (\<open>ErrUnexpectedEOF\<close> for a
  source that simply ends); when no payload byte is there and the source ends with
  \<open>EOF\<close>, the guard \<^verbatim>\<open>errors.Is(err, io.EOF)\<close> after \<^verbatim>\<open>io.ReadFull\<close> leaves the loop
  and the samples written so far are returned without an error.
\<close>

theorem truncated_block:
  assumes "pending (ls_reader st) = lo # hi # payload"
    and "0 \<le> sint (le_int16 [lo, hi])"
    and "int (length payload) < sint (le_int16 [lo, hi])"
  shows "fst (Decode_loop s h st) =
     (if payload \<noteq> []
      then Inl (ReadBlockFailed
             (if at_end (ls_reader st) = EOF then ErrUnexpectedEOF else at_end (ls_reader st)))
      else if at_end (ls_reader st) = EOF then Inr (ls_out st)
      else Inl (ReadBlockFailed (at_end (ls_reader st))))"
proof -
  define r1 where "r1 = (ls_reader st)\<lparr>pending := payload\<rparr>"
  have rd: "binary_Read_int16 (ls_reader st) = (Inr (le_int16 [lo, hi]), r1)"
    unfolding r1_def by (rule binary_Read_int16_full [OF assms(1)])
  have r1: "pending r1 = payload" "at_end r1 = at_end (ls_reader st)"
    by (simp_all add: r1_def)
  have short: "length (pending r1) < nat (sint (le_int16 [lo, hi]))"
    using assms(3) r1(1) by simp
  show ?thesis
  proof (cases "payload = []")
    case True
    have "ReadFull r1 (nat (sint (le_int16 [lo, hi]))) = ([], Some (at_end r1), r1)"
      using True short r1(1) by (simp add: ReadFull_nothing)
    then have it: "fst (Decode_iter s h st) =
        (if at_end r1 = EOF then Break else Return (ReadBlockFailed (at_end r1)))"
      by (rule Decode_iter_block_error [OF rd assms(2)])
    show ?thesis
    proof (cases "at_end r1 = EOF")
      case True
      with it have "fst (Decode_iter s h st) = Break" by simp
      then have "Decode_loop s h st = (Inr (ls_out st), ls_proc st)"
        by (rule Decode_loop_Break)
      with True \<open>payload = []\<close> r1(2) show ?thesis by simp
    next
      case False
      with it have "fst (Decode_iter s h st) = Return (ReadBlockFailed (at_end r1))" by simp
      then have "fst (Decode_loop s h st) = Inl (ReadBlockFailed (at_end r1))"
        by (rule Decode_loop_Return)
      with False \<open>payload = []\<close> r1(2) show ?thesis by simp
    qed
  next
    case False
    define err where "err = (if at_end r1 = EOF then ErrUnexpectedEOF else at_end r1)"
    have "ReadFull r1 (nat (sint (le_int16 [lo, hi]))) = (pending r1, Some err, r1\<lparr>pending := []\<rparr>)"
      unfolding err_def using False short r1(1) by (simp add: ReadFull_short)
    then have "fst (Decode_iter s h st) = (if err = EOF then Break else Return (ReadBlockFailed err))"
      by (rule Decode_iter_block_error [OF rd assms(2)])
    moreover have "err \<noteq> EOF"
      by (simp add: err_def)
    ultimately have "fst (Decode_iter s h st) = Return (ReadBlockFailed err)"
      by simp
    then have "fst (Decode_loop s h st) = Inl (ReadBlockFailed err)"
      by (rule Decode_loop_Return)
    with False r1(2) show ?thesis by (simp add: err_def)
  qed
qed

lemma clean_end_characterised:
  "(fst (Decode_iter s h st) = Break) =
     ((pending (ls_reader st) = [] \<and> at_end (ls_reader st) = EOF)
      \<or> (2 \<le> length (pending (ls_reader st)) \<and> sint (le_int16 (pending (ls_reader st))) < 0)
      \<or> (length (pending (ls_reader st)) = 2 \<and> 0 < sint (le_int16 (pending (ls_reader st)))
           \<and> at_end (ls_reader st) = EOF))
   \<and> (fst (Decode_iter s h st) = Break \<longrightarrow>
        Decode_loop s h st = (Inr (ls_out st), ls_proc st))"
proof (intro conjI impI)
  show "Decode_loop s h st = (Inr (ls_out st), ls_proc st)" if "fst (Decode_iter s h st) = Break"
    using that by (rule Decode_loop_Break)
  let ?r = "ls_reader st"
  show "(fst (Decode_iter s h st) = Break) =
     ((pending ?r = [] \<and> at_end ?r = EOF)
      \<or> (2 \<le> length (pending ?r) \<and> sint (le_int16 (pending ?r)) < 0)
      \<or> (length (pending ?r) = 2 \<and> 0 < sint (le_int16 (pending ?r)) \<and> at_end ?r = EOF))"
  proof (cases "pending ?r")
    case Nil
    then show ?thesis
      by (simp add: Decode_iter_size_error [OF binary_Read_int16_empty])
  next
    case (Cons lo p1)
    show ?thesis
    proof (cases p1)
      case Nil
      with Cons have "pending ?r = [lo]" by simp
      then show ?thesis
        by (simp add: Decode_iter_size_error [OF binary_Read_int16_half])
    next
      case (Cons hi rest)
      with \<open>pending ?r = lo # p1\<close> have p: "pending ?r = lo # hi # rest" by simp
      define n where "n = le_int16 [lo, hi]"
      define r1 where "r1 = ?r\<lparr>pending := rest\<rparr>"
      have rd: "binary_Read_int16 ?r = (Inr n, r1)"
        unfolding n_def r1_def by (rule binary_Read_int16_full [OF p])
      have r1: "pending r1 = rest" "at_end r1 = at_end ?r"
        by (simp_all add: r1_def)
      have np: "le_int16 (lo # hi # rest) = n"
        unfolding n_def by (rule le_int16_prefix)
      have len: "2 \<le> length (pending ?r)" "(length (pending ?r) = 2) = (rest = [])"
        by (simp_all add: p)
      have "sint n < 0 \<or> sint n = 0 \<or> (0 < sint n \<and> rest = [])
          \<or> (0 < sint n \<and> rest \<noteq> [] \<and> length rest < nat (sint n))
          \<or> (0 < sint n \<and> nat (sint n) \<le> length rest)"
        by (cases "rest = []") (simp, arith, simp, arith)
      then consider (neg) "sint n < 0" | (zero) "sint n = 0"
        | (none) "0 < sint n" "rest = []"
        | (short) "0 < sint n" "rest \<noteq> []" "length rest < nat (sint n)"
        | (whole) "0 < sint n" "nat (sint n) \<le> length rest"
        by blast
      then show ?thesis
      proof cases
        case neg
        then show ?thesis
          by (simp add: Decode_iter_negative [OF rd] np len p)
      next
        case zero
        have "ReadFull r1 (nat (sint n)) = ([], None, r1)"
          by (simp add: zero ReadFull_def)
        moreover have "0 \<le> sint n"
          by (simp add: zero)
        ultimately have "fst (Decode_iter s h st) \<noteq> Break"
          using Decode_iter_block_not_Break [OF rd] by blast
        then show ?thesis
          by (simp add: np zero len p n_def [symmetric])
      next
        case none
        have "ReadFull r1 (nat (sint n)) = ([], Some (at_end r1), r1)"
          using none r1(1) by (simp add: ReadFull_nothing)
        moreover have "0 \<le> sint n"
          using none by simp
        ultimately have "fst (Decode_iter s h st) =
            (if at_end r1 = EOF then Break else Return (ReadBlockFailed (at_end r1)))"
          using Decode_iter_block_error [OF rd] by blast
        then show ?thesis
          using none by (simp add: np len r1(2) p n_def [symmetric])
      next
        case short
        define err where "err = (if at_end r1 = EOF then ErrUnexpectedEOF else at_end r1)"
        have "ReadFull r1 (nat (sint n)) = (pending r1, Some err, r1\<lparr>pending := []\<rparr>)"
          unfolding err_def using short r1(1) by (simp add: ReadFull_short)
        moreover have "0 \<le> sint n"
          using short by simp
        ultimately have "fst (Decode_iter s h st) =
            (if err = EOF then Break else Return (ReadBlockFailed err))"
          using Decode_iter_block_error [OF rd] by blast
        moreover have "err \<noteq> EOF"
          by (simp add: err_def)
        ultimately show ?thesis
          using short by (simp add: np len p)
      next
        case whole
        have "ReadFull r1 (nat (sint n)) =
            (take (nat (sint n)) (pending r1), None, r1\<lparr>pending := drop (nat (sint n)) (pending r1)\<rparr>)"
          using whole r1(1) by (simp add: ReadFull_ok)
        moreover have "0 \<le> sint n"
          using whole by simp
        ultimately have "fst (Decode_iter s h st) \<noteq> Break"
          using Decode_iter_block_not_Break [OF rd] by blast
        moreover have "rest \<noteq> []"
          using whole by auto
        ultimately show ?thesis
          using whole by (simp add: np len p)
      qed
    qed
  qed
qed

lemma le_int16_examples:
  "sint (le_int16 [0x0A, 0x00]) = 10"
  "sint (le_int16 [0xFF, 0xFF]) = - 1"
  "sint (le_int16 [0x04, 0x00]) = 4"
  "le_int16 [0x0A, 0x00] = 10"
  "le_int16 [0x04, 0x00] = 4"
  by (simp_all add: le_int16.simps)

lemma Header_prefix:
  "take 9 (Header @ bs) = Header" "drop 9 (Header @ bs) = bs"
  by (simp_all add: Header_bytes)

lemma stub_setup:
  "createDecoder (NewSilkDecoder (Some (stub_DLL smp c))) w
     = (Inr 1, logged w (native w) CallCreateDecoder)"
  "setSampleRate (NewSilkDecoder (Some (stub_DLL smp c))) h n w
     = (None, logged w (native w) (CallSetSampleRate h n))"
  "setFramesPerPacket (NewSilkDecoder (Some (stub_DLL smp c))) h n w
     = (None, logged w (native w) (CallSetFramesPerPacket h n))"
  by (simp_all add: createDecoder_def setSampleRate_def setFramesPerPacket_def FindProc_def
      NewSilkDecoder_def stub_DLL_def)

lemma stub_decode:
  "inData \<noteq> [] \<Longrightarrow> outData \<noteq> [] \<Longrightarrow>
     decode (NewSilkDecoder (Some (stub_DLL smp c))) h inData n outData cell w
       = (Inr (scast (c * 2)), take (length outData) (smp @ drop (length smp) outData),
          logged w (native w) (CallDecode h inData n cell))"
  by (simp add: decode_def FindProc_def NewSilkDecoder_def stub_DLL_def Let_def)

lemma Decode_stub:
  assumes "checkHeader src = (None, r)"
  shows "Decode (NewSilkDecoder (Some (stub_DLL smp c))) src w =
     Decode_loop (NewSilkDecoder (Some (stub_DLL smp c))) 1
       \<lparr>ls_reader = r, ls_in = replicate 1024 0, ls_buf = replicate (frameSize * 2) 0,
        ls_out = [],
        ls_proc = \<lparr>native = native w,
                   trace = trace w @ [CallCreateDecoder, CallSetSampleRate 1 16000,
                                      CallSetFramesPerPacket 1 1]\<rparr>\<rparr>"
  by (simp add: Decode_def assms stub_setup logged_def)

text \<open>
  Claim C2, as the code has it. One pass of the loop leaves it by \<^verbatim>\<open>break\<close> in exactly
  three reading situations: no byte is left where the length field should start and the
  source ends with \<open>EOF\<close>; the length is negative (whatever follows it); or the length
  is positive, no payload byte follows it and the source ends with \<open>EOF\<close>. Then
  \<^verbatim>\<open>Decode\<close> returns the samples written so far and no error. When the source ends
  after one byte of the length field, the pass returns the error of the length read
  (\<open>ErrUnexpectedEOF\<close> for a source that simply ends), and so does \<^verbatim>\<open>Decode\<close>.
\<close>

theorem clean_end_of_loop:
  "(fst (Decode_iter s h st) = Break) =
     ((pending (ls_reader st) = [] \<and> at_end (ls_reader st) = EOF)
      \<or> (2 \<le> length (pending (ls_reader st)) \<and> sint (le_int16 (pending (ls_reader st))) < 0)
      \<or> (length (pending (ls_reader st)) = 2 \<and> 0 < sint (le_int16 (pending (ls_reader st)))
           \<and> at_end (ls_reader st) = EOF))
   \<and> (fst (Decode_iter s h st) = Break \<longrightarrow>
        Decode_loop s h st = (Inr (ls_out st), ls_proc st))
   \<and> (length (pending (ls_reader st)) = 1 \<longrightarrow>
        fst (Decode_iter s h st) =
          Return (ReadBlockSizeFailed
            (if at_end (ls_reader st) = EOF then ErrUnexpectedEOF else at_end (ls_reader st)))
        \<and> fst (Decode_loop s h st) =
          Inl (ReadBlockSizeFailed
            (if at_end (ls_reader st) = EOF then ErrUnexpectedEOF else at_end (ls_reader st))))"
proof -
  have half: "fst (Decode_iter s h st) =
          Return (ReadBlockSizeFailed
            (if at_end (ls_reader st) = EOF then ErrUnexpectedEOF else at_end (ls_reader st)))
        \<and> fst (Decode_loop s h st) =
          Inl (ReadBlockSizeFailed
            (if at_end (ls_reader st) = EOF then ErrUnexpectedEOF else at_end (ls_reader st)))"
    if "length (pending (ls_reader st)) = 1"
  proof -
    from that obtain b where "pending (ls_reader st) = [b]"
      by (cases "pending (ls_reader st)") auto
    then have "fst (Decode_iter s h st) =
        Return (ReadBlockSizeFailed
          (if at_end (ls_reader st) = EOF then ErrUnexpectedEOF else at_end (ls_reader st)))"
      by (simp add: Decode_iter_size_error [OF binary_Read_int16_half])
    then show ?thesis
      using Decode_loop_Return by blast
  qed
  show ?thesis
    using clean_end_characterised [of s h st] half by blast
qed

subsection \<open>The decoded length\<close>

lemma sint_scast_int16: "sint (scast (x :: int16) :: go_int) = sint x"
  by (simp add: sint_up_scast is_up)

lemma mod_65536_cases:
  fixes k :: int
  shows "0 \<le> k \<Longrightarrow> k < 65536 \<Longrightarrow> k mod 65536 = k"
    and "- 65536 \<le> k \<Longrightarrow> k < 0 \<Longrightarrow> k mod 65536 = k + 65536"
    and "65536 \<le> k \<Longrightarrow> k < 131072 \<Longrightarrow> k mod 65536 = k - 65536"
proof -
  show "0 \<le> k \<Longrightarrow> k < 65536 \<Longrightarrow> k mod 65536 = k"
    by (rule mod_pos_pos_trivial)
  show "k mod 65536 = k + 65536" if "- 65536 \<le> k" "k < 0"
  proof -
    have "(k + 65536) mod 65536 = k + 65536"
      using that by (intro mod_pos_pos_trivial) simp_all
    then show ?thesis by simp
  qed
  show "k mod 65536 = k - 65536" if "65536 \<le> k" "k < 131072"
  proof -
    have "(k - 65536) mod 65536 = k - 65536"
      using that by (intro mod_pos_pos_trivial) simp_all
    moreover have "(k - 65536) mod 65536 = k mod 65536"
      by (metis diff_add_cancel mod_add_self2)
    ultimately show ?thesis by simp
  qed
qed

lemma sint_double_int16:
  "sint (c * 2 :: int16) =
     (if sint c < - 16384 then 2 * sint c + 65536
      else if 16383 < sint c then 2 * sint c - 65536 else 2 * sint c)"
proof -
  have b: "- 32768 \<le> sint c" "sint c < 32768"
    using sint_range_size [of c] by (simp_all add: word_size)
  have "sint (c * 2) = signed_take_bit 15 (sint c * 2)"
    by (simp add: sint_word_ariths)
  also have "\<dots> = (sint c * 2 + 32768) mod 65536 - 32768"
    by (simp add: signed_take_bit_eq_take_bit_shift take_bit_eq_mod)
  finally have e: "sint (c * 2) = (sint c * 2 + 32768) mod 65536 - 32768" .
  show ?thesis
  proof (cases "sint c < - 16384")
    case True
    then have "(sint c * 2 + 32768) mod 65536 = sint c * 2 + 32768 + 65536"
      using b by (intro mod_65536_cases(2)) simp_all
    with True show ?thesis by (simp add: e)
  next
    case False
    show ?thesis
    proof (cases "16383 < sint c")
      case True
      then have "(sint c * 2 + 32768) mod 65536 = sint c * 2 + 32768 - 65536"
        using b by (intro mod_65536_cases(3)) simp_all
      with True False show ?thesis by (simp add: e)
    next
      case nb: False
      then have "(sint c * 2 + 32768) mod 65536 = sint c * 2 + 32768"
        using False by (intro mod_65536_cases(1)) simp_all
      with nb False show ?thesis by (simp add: e)
    qed
  qed
qed

lemma append_in_bounds_iff:
  "(0 \<le> sint (c * 2 :: int16) \<and> sint (c * 2) \<le> 3840) =
     ((0 \<le> sint c \<and> sint c \<le> 1920) \<or> sint c \<le> - 30848)"
proof -
  have b: "- 32768 \<le> sint c" "sint c < 32768"
    using sint_range_size [of c] by (simp_all add: word_size)
  show ?thesis
    unfolding sint_double_int16 using b by auto
qed

lemma large_count_wraps_negative:
  "16383 < sint (c :: int16) \<Longrightarrow> sint (c * 2) < 0"
proof -
  assume h: "16383 < sint c"
  have "sint c < 32768"
    using sint_range_size [of c] by (simp add: word_size)
  with h show ?thesis
    unfolding sint_double_int16 by simp
qed

lemma decode_call:
  assumes "dll s = Some f" and "has_proc f ''Decode''" and "inData \<noteq> []" and "outData \<noteq> []"
    and "call_Decode f h inData n outData cell (native w) = (failed, written, c, d')"
  shows "decode s h inData n outData cell w =
     (if failed then Inl (CallFailed ''Decode'') else Inr (scast (c * 2)),
      take (length outData) (written @ drop (length written) outData),
      logged w d' (CallDecode h inData n cell))"
  using assms by (simp add: decode_def FindProc_def Let_def)

lemma Decode_iter_decoded:
  assumes p: "pending (ls_reader st) = lo # hi # rest"
    and n: "n = le_int16 [lo, hi]" "0 < sint n" "k = nat (sint n)" "k \<le> length rest"
    and d: "dll s = Some f" "has_proc f ''Decode''"
    and buf: "ls_buf st \<noteq> []"
    and call: "call_Decode f h (take k rest) (word_of_nat k) (ls_buf st) n (native (ls_proc st))
                 = (False, written, c, d')"
    and buf': "buf' = take (length (ls_buf st)) (written @ drop (length written) (ls_buf st))"
  shows "fst (Decode_iter s h st) =
           (if sint (c * 2) < 0 \<or> int (length (ls_buf st)) < sint (c * 2)
            then Return PanicSliceBounds else Continue)"
    and "ls_buf (snd (Decode_iter s h st)) = buf'"
    and "ls_reader (snd (Decode_iter s h st)) = (ls_reader st)\<lparr>pending := drop k rest\<rparr>"
    and "ls_proc (snd (Decode_iter s h st))
           = logged (ls_proc st) d' (CallDecode h (take k rest) (word_of_nat k) n)"
    and "ls_out (snd (Decode_iter s h st)) =
           (if sint (c * 2) < 0 \<or> int (length (ls_buf st)) < sint (c * 2)
            then ls_out st else ls_out st @ take (nat (sint (c * 2))) buf')"
proof -
  define r1 where "r1 = (ls_reader st)\<lparr>pending := rest\<rparr>"
  have rd: "binary_Read_int16 (ls_reader st) = (Inr n, r1)"
    unfolding n(1) r1_def by (rule binary_Read_int16_full [OF p])
  have nn: "0 \<le> sint n"
    using n(2) by simp
  have rf: "ReadFull r1 (nat (sint n)) = (take k rest, None, (ls_reader st)\<lparr>pending := drop k rest\<rparr>)"
    using n(4) by (simp add: ReadFull_ok r1_def n(3) [symmetric])
  have lk: "length (take k rest) = k"
    using n(4) by simp
  have ne: "take k rest \<noteq> []"
    using n(2,3,4) by (cases rest) auto
  have dc: "decode s h (take k rest) (word_of_nat k) (ls_buf st) n (ls_proc st) =
      (Inr (scast (c * 2)), buf',
       logged (ls_proc st) d' (CallDecode h (take k rest) (word_of_nat k) n))"
    unfolding buf' using decode_call [OF d ne buf call] by simp
  have lb: "length buf' = length (ls_buf st)"
    unfolding buf' by simp
  note it = Decode_iter_block [OF rd nn rf, of s h]
  show "fst (Decode_iter s h st) =
           (if sint (c * 2) < 0 \<or> int (length (ls_buf st)) < sint (c * 2)
            then Return PanicSliceBounds else Continue)"
    unfolding it by (simp add: min_absorb2 [OF n(4)] dc Let_def sint_scast_int16 lb)
  show "ls_buf (snd (Decode_iter s h st)) = buf'"
    unfolding it by (simp add: min_absorb2 [OF n(4)] dc Let_def sint_scast_int16 lb)
  show "ls_reader (snd (Decode_iter s h st)) = (ls_reader st)\<lparr>pending := drop k rest\<rparr>"
    unfolding it by (simp add: min_absorb2 [OF n(4)] dc Let_def sint_scast_int16 lb)
  show "ls_proc (snd (Decode_iter s h st))
           = logged (ls_proc st) d' (CallDecode h (take k rest) (word_of_nat k) n)"
    unfolding it by (simp add: min_absorb2 [OF n(4)] dc Let_def sint_scast_int16 lb)
  show "ls_out (snd (Decode_iter s h st)) =
           (if sint (c * 2) < 0 \<or> int (length (ls_buf st)) < sint (c * 2)
            then ls_out st else ls_out st @ take (nat (sint (c * 2))) buf')"
    unfolding it by (simp add: min_absorb2 [OF n(4)] dc Let_def sint_scast_int16 lb)
qed

lemma frame_buffer_size: "frameSize * 2 = 3840"
  by (simp add: frameSize_def FRAME_LENGTH_MS_def MAX_API_FS_KHZ_def)

text \<open>
  Claim C10, as the code has it. When a block of \<open>k > 0\<close> bytes is read and the native
  \<^verbatim>\<open>Decode\<close> succeeds and reports the count \<open>c\<close>, the length used is \<open>c * 2\<close> computed
  in \<^verbatim>\<open>int16\<close>. \<^verbatim>\<open>buf[:length]\<close> on the 3840-byte buffer is in bounds exactly when
  \<open>0 \<le> c \<le> 1920\<close> or \<open>c \<le> -30848\<close> (where the product wraps into \<open>0..3840\<close>);
  then that many bytes are appended to the output. Otherwise the slice expression
  panics. A count above 16383 wraps to a negative length.
\<close>

theorem decoded_block_append:
  assumes "pending (ls_reader st) = lo # hi # rest"
    and "n = le_int16 [lo, hi]" and "0 < sint n" and "k = nat (sint n)" and "k \<le> length rest"
    and "dll s = Some f" and "has_proc f ''Decode''"
    and "length (ls_buf st) = frameSize * 2"
    and "call_Decode f h (take k rest) (word_of_nat k) (ls_buf st) n (native (ls_proc st))
           = (False, written, c, d')"
  shows "(if (0 \<le> sint c \<and> sint c \<le> 1920) \<or> sint c \<le> - 30848
          then fst (Decode_iter s h st) = Continue
             \<and> ls_out (snd (Decode_iter s h st))
                 = ls_out st @ take (nat (sint (c * 2))) (ls_buf (snd (Decode_iter s h st)))
             \<and> length (ls_out (snd (Decode_iter s h st)))
                 = length (ls_out st) + nat (sint (c * 2))
          else fst (Decode_iter s h st) = Return PanicSliceBounds
             \<and> ls_out (snd (Decode_iter s h st)) = ls_out st)
         \<and> (16383 < sint c \<longrightarrow> sint (c * 2) < 0)"
proof -
  define buf' where "buf' = take (length (ls_buf st)) (written @ drop (length written) (ls_buf st))"
  have ne: "ls_buf st \<noteq> []"
    using assms(8) by (auto simp add: frame_buffer_size)
  note d = Decode_iter_decoded [OF assms(1-7) ne assms(9) buf'_def]
  have len: "int (length (ls_buf st)) = 3840" "length buf' = 3840"
    using assms(8) by (simp_all add: frame_buffer_size buf'_def)
  have cond: "(sint (c * 2) < 0 \<or> int (length (ls_buf st)) < sint (c * 2))
      = (\<not> ((0 \<le> sint c \<and> sint c \<le> 1920) \<or> sint c \<le> - 30848))"
    using append_in_bounds_iff [of c] by (auto simp add: len(1))
  have wrap: "16383 < sint c \<longrightarrow> sint (c * 2) < 0"
    using large_count_wraps_negative [of c] by blast
  show ?thesis
  proof (cases "(0 \<le> sint c \<and> sint c \<le> 1920) \<or> sint c \<le> - 30848")
    case True
    then have ib: "0 \<le> sint (c * 2)" "sint (c * 2) \<le> 3840"
      using append_in_bounds_iff [of c] by simp_all
    have nc: "\<not> (sint (c * 2) < 0 \<or> int (length (ls_buf st)) < sint (c * 2))"
      using True by (simp only: cond) simp
    have c1: "fst (Decode_iter s h st) = Continue"
      by (simp only: d(1) nc if_False)
    have c2: "ls_out (snd (Decode_iter s h st))
        = ls_out st @ take (nat (sint (c * 2))) (ls_buf (snd (Decode_iter s h st)))"
      by (simp only: d(5) d(2) nc if_False)
    have "length (take (nat (sint (c * 2))) buf') = nat (sint (c * 2))"
      using len(2) ib by simp
    then have c3: "length (ls_out (snd (Decode_iter s h st)))
        = length (ls_out st) + nat (sint (c * 2))"
      by (simp only: d(5) nc if_False length_append)
    show ?thesis
      unfolding if_P [OF True] using c1 c2 c3 wrap by blast
  next
    case False
    have nc: "sint (c * 2) < 0 \<or> int (length (ls_buf st)) < sint (c * 2)"
      using False by (simp only: cond) simp
    have c1: "fst (Decode_iter s h st) = Return PanicSliceBounds"
      by (simp only: d(1) nc if_True)
    have c2: "ls_out (snd (Decode_iter s h st)) = ls_out st"
      by (simp only: d(5) nc if_True)
    show ?thesis
      unfolding if_not_P [OF False] using c1 c2 wrap by blast
  qed
qed

subsection \<open>Calls into the library\<close>

lemma decode_trace:
  "\<exists>calls. trace (snd (snd (decode s h inData n outData cell w))) = trace w @ calls
     \<and> list_all (is_decode_call h) calls"
  by (auto simp add: decode_def logged_def Let_def split: sum.splits prod.splits)

lemma Decode_iter_trace:
  "\<exists>calls. trace (ls_proc (snd (Decode_iter s h st))) = trace (ls_proc st) @ calls
     \<and> list_all (is_decode_call h) calls"
proof (cases "binary_Read_int16 (ls_reader st)")
  case (Pair res r1)
  show ?thesis
  proof (cases res)
    case (Inl err)
    then show ?thesis
      using Pair by (simp add: Decode_iter_size_error)
  next
    case (Inr nByte)
    show ?thesis
    proof (cases "sint nByte < 0")
      case True
      then show ?thesis
        using Pair Inr by (simp add: Decode_iter_negative)
    next
      case False
      then have nn: "0 \<le> sint nByte" by simp
      obtain got err r2 where rf: "ReadFull r1 (nat (sint nByte)) = (got, err, r2)"
        by (cases "ReadFull r1 (nat (sint nByte))") auto
      show ?thesis
      proof (cases err)
        case (Some e)
        then show ?thesis
          using Pair Inr False rf by (simp add: Decode_iter_def Let_def)
      next
        case None
        note it = Decode_iter_block [OF Pair [unfolded Inr] nn rf [unfolded None], of s h]
        obtain res' buf' w' where
          dc: "decode s h got (word_of_nat (length got)) (ls_buf st) nByte (ls_proc st)
                 = (res', buf', w')"
          by (cases "decode s h got (word_of_nat (length got)) (ls_buf st) nByte (ls_proc st)") auto
        have "\<exists>calls. trace w' = trace (ls_proc st) @ calls \<and> list_all (is_decode_call h) calls"
          using decode_trace [of s h got "word_of_nat (length got)" "ls_buf st" nByte "ls_proc st"]
          by (simp add: dc)
        then show ?thesis
          unfolding it by (cases res') (simp_all add: dc Let_def)
      qed
    qed
  qed
qed

lemma Decode_loop_trace:
  "\<exists>calls. trace (snd (Decode_loop s h st)) = trace (ls_proc st) @ calls
     \<and> list_all (is_decode_call h) calls"
proof (induction s h st rule: Decode_loop.induct)
  case (1 s h st)
  obtain c1 where c1: "trace (ls_proc (snd (Decode_iter s h st))) = trace (ls_proc st) @ c1"
      "list_all (is_decode_call h) c1"
    using Decode_iter_trace [of s h st] by blast
  show ?case
  proof (cases "fst (Decode_iter s h st)")
    case Continue
    then have "(Continue, snd (Decode_iter s h st)) = Decode_iter s h st"
      by (metis prod.collapse)
    from "1.IH" [OF this refl]
    obtain c2 where c2: "trace (snd (Decode_loop s h (snd (Decode_iter s h st))))
        = trace (ls_proc (snd (Decode_iter s h st))) @ c2" "list_all (is_decode_call h) c2"
      by blast
    have "Decode_loop s h st = Decode_loop s h (snd (Decode_iter s h st))"
      by (subst Decode_loop_unfold) (simp add: Continue)
    then have "trace (snd (Decode_loop s h st)) = trace (ls_proc st) @ (c1 @ c2)"
      using c1(1) c2(1) by simp
    moreover have "list_all (is_decode_call h) (c1 @ c2)"
      using c1(2) c2(2) by simp
    ultimately show ?thesis by blast
  next
    case Break
    then have "snd (Decode_loop s h st) = ls_proc (snd (Decode_iter s h st))"
      by (subst Decode_loop_unfold) simp
    then show ?thesis using c1 by auto
  next
    case (Return e)
    then have "snd (Decode_loop s h st) = ls_proc (snd (Decode_iter s h st))"
      by (subst Decode_loop_unfold) simp
    then show ?thesis using c1 by auto
  qed
qed

lemma setup_traces:
  "createDecoder s w = (Inr handle, w1) \<Longrightarrow> trace w1 = trace w @ [CallCreateDecoder]"
  "setSampleRate s handle n w = (None, w2) \<Longrightarrow> trace w2 = trace w @ [CallSetSampleRate handle n]"
  "setFramesPerPacket s handle n w = (None, w3) \<Longrightarrow>
     trace w3 = trace w @ [CallSetFramesPerPacket handle n]"
  by (auto simp add: createDecoder_def setSampleRate_def setFramesPerPacket_def logged_def
      split: sum.splits prod.splits if_splits)

lemma Decode_Inr:
  assumes "Decode s src w = (Inr data, w')"
  shows "\<exists>r handle w1 w2 w3.
     checkHeader src = (None, r) \<and> createDecoder s w = (Inr handle, w1)
     \<and> setSampleRate s handle 16000 w1 = (None, w2)
     \<and> setFramesPerPacket s handle 1 w2 = (None, w3)
     \<and> Decode_loop s handle
          \<lparr>ls_reader = r, ls_in = replicate 1024 0, ls_buf = replicate (frameSize * 2) 0,
           ls_out = [], ls_proc = w3\<rparr> = (Inr data, w')"
  using assms
  by (auto simp add: Decode_def split: prod.splits option.splits sum.splits)

lemma Decode_success_trace:
  assumes "Decode s src w = (Inr data, w')"
  shows "\<exists>handle calls.
     trace w' = trace w @ [CallCreateDecoder, CallSetSampleRate handle 16000,
                          CallSetFramesPerPacket handle 1] @ calls
     \<and> list_all (is_decode_call handle) calls"
proof -
  from Decode_Inr [OF assms] obtain r handle w1 w2 w3 where
    h: "createDecoder s w = (Inr handle, w1)" "setSampleRate s handle 16000 w1 = (None, w2)"
      "setFramesPerPacket s handle 1 w2 = (None, w3)"
      "Decode_loop s handle
          \<lparr>ls_reader = r, ls_in = replicate 1024 0, ls_buf = replicate (frameSize * 2) 0,
           ls_out = [], ls_proc = w3\<rparr> = (Inr data, w')"
    by blast
  have t3: "trace w3 = trace w @ [CallCreateDecoder, CallSetSampleRate handle 16000,
      CallSetFramesPerPacket handle 1]"
    using setup_traces(1) [OF h(1)] setup_traces(2) [OF h(2)] setup_traces(3) [OF h(3)] by simp
  obtain calls where "trace w' = trace w3 @ calls" "list_all (is_decode_call handle) calls"
    using Decode_loop_trace [of s handle "\<lparr>ls_reader = r, ls_in = replicate 1024 0,
      ls_buf = replicate (frameSize * 2) 0, ls_out = [], ls_proc = w3\<rparr>"] h(4) by auto
  then show ?thesis using t3 by auto
qed









subsection \<open>Runs with the test library\<close>

lemma fresh_simps:
  "pending (ls_reader (fresh bs w)) = bs" "at_end (ls_reader (fresh bs w)) = EOF"
  "ls_out (fresh bs w) = []" "ls_proc (fresh bs w) = w"
  "ls_buf (fresh bs w) = replicate (frameSize * 2) 0"
  "length (ls_buf (fresh bs w)) = frameSize * 2"
  by (simp_all add: fresh_def)

lemma Decode_loop_Continue:
  "fst (Decode_iter s h st) = Continue \<Longrightarrow>
     Decode_loop s h st = Decode_loop s h (snd (Decode_iter s h st))"
  by (subst Decode_loop_unfold) simp

lemma Decode_iter_eof:
  "pending (ls_reader st) = [] \<Longrightarrow> at_end (ls_reader st) = EOF \<Longrightarrow>
     fst (Decode_iter s h st) = Break"
  by (simp add: Decode_iter_size_error [OF binary_Read_int16_empty])

lemma Decode_iter_negative_length:
  "pending (ls_reader st) = lo # hi # rest \<Longrightarrow> sint (le_int16 [lo, hi]) < 0 \<Longrightarrow>
     fst (Decode_iter s h st) = Break"
  using Decode_iter_negative [OF binary_Read_int16_full] by (metis fst_conv)

lemma Decode_iter_no_payload:
  assumes "pending (ls_reader st) = [lo, hi]" and "0 < sint (le_int16 [lo, hi])"
  shows "fst (Decode_iter s h st) =
     (if at_end (ls_reader st) = EOF then Break
      else Return (ReadBlockFailed (at_end (ls_reader st))))"
proof -
  define r1 where "r1 = (ls_reader st)\<lparr>pending := []\<rparr>"
  have rd: "binary_Read_int16 (ls_reader st) = (Inr (le_int16 [lo, hi]), r1)"
    unfolding r1_def by (rule binary_Read_int16_full [OF assms(1)])
  have "ReadFull r1 (nat (sint (le_int16 [lo, hi]))) = ([], Some (at_end r1), r1)"
    using assms(2) by (simp add: ReadFull_nothing r1_def)
  moreover have "0 \<le> sint (le_int16 [lo, hi])"
    using assms(2) by simp
  ultimately have "fst (Decode_iter s h st) =
      (if at_end r1 = EOF then Break else Return (ReadBlockFailed (at_end r1)))"
    using Decode_iter_block_error [OF rd] by blast
  then show ?thesis by (simp add: r1_def)
qed

lemma Decode_iter_half_length:
  "pending (ls_reader st) = [b] \<Longrightarrow>
     fst (Decode_iter s h st) =
       Return (ReadBlockSizeFailed
         (if at_end (ls_reader st) = EOF then ErrUnexpectedEOF else at_end (ls_reader st)))"
  by (simp add: Decode_iter_size_error [OF binary_Read_int16_half])

lemma stub_call_Decode:
  "dll (NewSilkDecoder (Some (stub_DLL smp c))) = Some (stub_DLL smp c)"
  "has_proc (stub_DLL smp c) name"
  "call_Decode (stub_DLL smp c) h inData n outData cell d = (False, smp, c, d)"
  by (simp_all add: NewSilkDecoder_def stub_DLL_def)

lemma stub_block_then_footer:
  fixes w :: "unit process"
  assumes "0 \<le> sint (c * 2)" and "sint (c * 2) \<le> 3840"
  shows "Decode_loop (NewSilkDecoder (Some (stub_DLL smp c))) 1
           (fresh [4, 0, 1, 2, 3, 4, 0xFF, 0xFF] w) =
         (Inr (take (nat (sint (c * 2)))
                (take (frameSize * 2) (smp @ drop (length smp) (replicate (frameSize * 2) 0)))),
          logged w () (CallDecode 1 [1, 2, 3, 4] 4 4))"
proof -
  let ?s = "NewSilkDecoder (Some (stub_DLL smp c))"
  let ?st = "fresh [4, 0, 1, 2, 3, 4, 0xFF, 0xFF] w"
  let ?buf' = "take (length (ls_buf ?st)) (smp @ drop (length smp) (ls_buf ?st))"
  have k: "(4::nat) = nat (sint (le_int16 [4, 0]))" "0 < sint (le_int16 [4, 0])"
    by (simp_all add: le_int16_examples)
  have call: "call_Decode (stub_DLL smp c) 1 (take 4 [1, 2, 3, 4, 0xFF, 0xFF]) (word_of_nat 4)
      (ls_buf ?st) (le_int16 [4, 0]) (native (ls_proc ?st)) = (False, smp, c, ())"
    by (simp add: stub_call_Decode)
  have ne: "ls_buf ?st \<noteq> []"
    by (simp add: fresh_simps frame_buffer_size)
  note d = Decode_iter_decoded [of ?st 4 0 "[1, 2, 3, 4, 0xFF, 0xFF]" "le_int16 [4, 0]" 4
      ?s "stub_DLL smp c" 1 smp c "()" ?buf', OF fresh_simps(1) refl k(2) k(1) _
      stub_call_Decode(1) stub_call_Decode(2) ne call refl]
  have inb: "\<not> (sint (c * 2) < 0 \<or> int (length (ls_buf ?st)) < sint (c * 2))"
    using assms by (simp add: fresh_simps frame_buffer_size)
  have c1: "fst (Decode_iter ?s 1 ?st) = Continue"
    using d(1) inb by simp
  let ?st' = "snd (Decode_iter ?s 1 ?st)"
  have rd': "pending (ls_reader ?st') = [0xFF, 0xFF]"
    using d(3) by (simp add: fresh_def)
  have "fst (Decode_iter ?s 1 ?st') = Break"
    by (rule Decode_iter_negative_length [OF rd']) (simp add: le_int16_examples)
  then have "Decode_loop ?s 1 ?st' = (Inr (ls_out ?st'), ls_proc ?st')"
    by (rule Decode_loop_Break)
  moreover have "ls_out ?st' = take (nat (sint (c * 2))) ?buf'"
    using d(5) inb by (simp add: fresh_simps)
  moreover have "ls_proc ?st' = logged w () (CallDecode 1 [1, 2, 3, 4] 4 4)"
    using d(4) by (simp add: fresh_simps le_int16_examples)
  ultimately show ?thesis
    using Decode_loop_Continue [OF c1] by (simp add: fresh_simps)
qed

lemma Decode_stub_fresh:
  "Decode (NewSilkDecoder (Some (stub_DLL smp c))) \<lparr>pending = Header @ bs, at_end = EOF\<rparr> w =
     Decode_loop (NewSilkDecoder (Some (stub_DLL smp c))) 1
       (fresh bs \<lparr>native = native w,
                  trace = trace w @ [CallCreateDecoder, CallSetSampleRate 1 16000,
                                     CallSetFramesPerPacket 1 1]\<rparr>)"
proof -
  have "checkHeader \<lparr>pending = Header @ bs, at_end = EOF\<rparr> = (None, \<lparr>pending = bs, at_end = EOF\<rparr>)"
    using checkHeader_ok_plain [OF Header_prefix(1), of bs EOF] by (simp only: Header_prefix(2))
  then show ?thesis
    unfolding fresh_def by (rule Decode_stub)
qed

lemma setup_trace_cases:
  "trace (snd (createDecoder s w)) = trace w
     \<or> trace (snd (createDecoder s w)) = trace w @ [CallCreateDecoder]"
  "trace (snd (setSampleRate s h n w)) = trace w
     \<or> trace (snd (setSampleRate s h n w)) = trace w @ [CallSetSampleRate h n]"
  "trace (snd (setFramesPerPacket s h n w)) = trace w
     \<or> trace (snd (setFramesPerPacket s h n w)) = trace w @ [CallSetFramesPerPacket h n]"
  by (auto simp add: createDecoder_def setSampleRate_def setFramesPerPacket_def logged_def
      split: sum.splits prod.splits)

lemma decode_calls_are_not_close:
  "list_all (is_decode_call h) calls \<Longrightarrow> filter is_close_call calls = []"
  by (induction calls) (auto elim: is_decode_call.elims)

lemma Decode_never_closes:
  "filter is_close_call (trace (snd (Decode s src w))) = filter is_close_call (trace w)"
proof (cases "checkHeader src")
  case (Pair herr reader)
  show ?thesis
  proof (cases herr)
    case (Some e)
    then show ?thesis using Pair by (simp add: Decode_def)
  next
    case None
    obtain cres w1 where cd: "createDecoder s w = (cres, w1)"
      by (cases "createDecoder s w") auto
    have f1: "filter is_close_call (trace w1) = filter is_close_call (trace w)"
      using setup_trace_cases(1) [of s w] by (auto simp add: cd)
    show ?thesis
    proof (cases cres)
      case (Inl e)
      then show ?thesis using Pair None cd f1 by (simp add: Decode_def)
    next
      case (Inr handle)
      obtain e2 w2 where sr: "setSampleRate s handle 16000 w1 = (e2, w2)"
        by (cases "setSampleRate s handle 16000 w1") auto
      have f2: "filter is_close_call (trace w2) = filter is_close_call (trace w)"
        using setup_trace_cases(2) [of s handle 16000 w1] f1 by (auto simp add: sr)
      show ?thesis
      proof (cases e2)
        case (Some e)
        then show ?thesis using Pair None cd Inr sr f2 by (simp add: Decode_def)
      next
        case n2: None
        obtain e3 w3 where fp: "setFramesPerPacket s handle 1 w2 = (e3, w3)"
          by (cases "setFramesPerPacket s handle 1 w2") auto
        have f3: "filter is_close_call (trace w3) = filter is_close_call (trace w)"
          using setup_trace_cases(3) [of s handle 1 w2] f2 by (auto simp add: fp)
        show ?thesis
        proof (cases e3)
          case (Some e)
          then show ?thesis using Pair None cd Inr sr n2 fp f3 by (simp add: Decode_def)
        next
          case n3: None
          let ?st = "\<lparr>ls_reader = reader, ls_in = replicate 1024 0,
            ls_buf = replicate (frameSize * 2) 0, ls_out = [], ls_proc = w3\<rparr>"
          have "Decode s src w = Decode_loop s handle ?st"
            using Pair None cd Inr sr n2 fp n3 by (simp add: Decode_def)
          moreover obtain calls where
            "trace (snd (Decode_loop s handle ?st)) = trace w3 @ calls"
            "list_all (is_decode_call handle) calls"
            using Decode_loop_trace [of s handle ?st] by auto
          ultimately show ?thesis
            using f3 decode_calls_are_not_close by simp
        qed
      qed
    qed
  qed
qed

text \<open>
  Claim C6 fails on the code. \<^verbatim>\<open>Decode\<close> on the magic alone, with a library whose calls
  all succeed, creates a session, configures it and returns successfully; the calls it
  made are \<^verbatim>\<open>CreateDecoder\<close>, \<^verbatim>\<open>setSampleRate\<close> and \<^verbatim>\<open>setFramesPerPacket\<close>, and
  \<^verbatim>\<open>CloseDecoder\<close> is not among them. (\<open>Decode_never_closes\<close>: on no input does
  \<^verbatim>\<open>Decode\<close> call \<^verbatim>\<open>CloseDecoder\<close>.)
\<close>

theorem session_never_released:
  "Decode (NewSilkDecoder (Some ten_samples)) \<lparr>pending = Header, at_end = EOF\<rparr> idle =
     (Inr [], \<lparr>native = (), trace = [CallCreateDecoder, CallSetSampleRate 1 16000,
                                     CallSetFramesPerPacket 1 1]\<rparr>)
   \<and> filter is_close_call
        (trace (snd (Decode (NewSilkDecoder (Some ten_samples))
                       \<lparr>pending = Header, at_end = EOF\<rparr> idle))) = []"
proof -
  let ?w = "\<lparr>native = (), trace = [CallCreateDecoder, CallSetSampleRate 1 16000,
    CallSetFramesPerPacket 1 1]\<rparr> :: unit process"
  have "Decode (NewSilkDecoder (Some ten_samples)) \<lparr>pending = Header @ [], at_end = EOF\<rparr> idle =
      Decode_loop (NewSilkDecoder (Some ten_samples)) 1 (fresh [] ?w)"
    unfolding ten_samples_def by (simp only: Decode_stub_fresh) (simp add: idle_def)
  moreover have "fst (Decode_iter (NewSilkDecoder (Some ten_samples)) 1 (fresh [] ?w)) = Break"
    by (rule Decode_iter_eof) (simp_all add: fresh_simps)
  then have "Decode_loop (NewSilkDecoder (Some ten_samples)) 1 (fresh [] ?w)
      = (Inr (ls_out (fresh [] ?w)), ls_proc (fresh [] ?w))"
    by (rule Decode_loop_Break)
  then have "Decode_loop (NewSilkDecoder (Some ten_samples)) 1 (fresh [] ?w) = (Inr [], ?w)"
    by (simp only: fresh_simps)
  ultimately show ?thesis by simp
qed


text \<open>The length field declares 10 bytes and 3 follow: the block-read error.\<close>

theorem truncated_block_witness:
  "pending (ls_reader (fresh [0x0A, 0x00, 1, 2, 3] idle)) = [0x0A, 0x00, 1, 2, 3]
   \<and> sint (le_int16 [0x0A, 0x00]) = 10
   \<and> fst (Decode_loop (NewSilkDecoder (Some ten_samples)) 1 (fresh [0x0A, 0x00, 1, 2, 3] idle))
       = Inl (ReadBlockFailed ErrUnexpectedEOF)"
  using truncated_block [of "fresh [0x0A, 0x00, 1, 2, 3] idle" "0x0A" "0x00" "[1, 2, 3]"
      "NewSilkDecoder (Some ten_samples)" 1]
  by (simp add: fresh_simps le_int16_examples)

text \<open>
  Claim C1 as stated fails: after the magic, a length field of 10 followed by no byte at
  all is fewer than 10 bytes, and \<^verbatim>\<open>Decode\<close> returns an empty sample buffer and no error.
\<close>

theorem dangling_length_ends_cleanly:
  "sint (le_int16 [0x0A, 0x00]) = 10
   \<and> fst (Decode (NewSilkDecoder (Some ten_samples))
            \<lparr>pending = Header @ [0x0A, 0x00], at_end = EOF\<rparr> idle) = Inr []"
proof -
  let ?s = "NewSilkDecoder (Some ten_samples)"
  let ?w = "\<lparr>native = native idle,
             trace = trace idle @ [CallCreateDecoder, CallSetSampleRate 1 16000,
                                   CallSetFramesPerPacket 1 1]\<rparr>"
  have "fst (Decode_iter ?s 1 (fresh [0x0A, 0x00] ?w)) = Break"
    using Decode_iter_no_payload [of "fresh [0x0A, 0x00] ?w" "0x0A" "0x00" ?s 1]
    by (simp add: fresh_simps le_int16_examples)
  then have "Decode_loop ?s 1 (fresh [0x0A, 0x00] ?w)
      = (Inr (ls_out (fresh [0x0A, 0x00] ?w)), ls_proc (fresh [0x0A, 0x00] ?w))"
    by (rule Decode_loop_Break)
  then have "fst (Decode ?s \<lparr>pending = Header @ [0x0A, 0x00], at_end = EOF\<rparr> idle) = Inr []"
    unfolding ten_samples_def by (simp only: Decode_stub_fresh fresh_simps fst_conv)
  then show ?thesis
    by (simp add: le_int16_examples)
qed

text \<open>
  A length of \<open>-1\<close> followed by three more bytes: the loop ends cleanly. One byte of a
  length field and then the end of the source: the error of the length read.
\<close>

theorem clean_end_of_loop_witness:
  "fst (Decode_iter (NewSilkDecoder (Some ten_samples)) 1 (fresh [0xFF, 0xFF, 1, 2, 3] idle))
     = Break
   \<and> Decode_loop (NewSilkDecoder (Some ten_samples)) 1 (fresh [0xFF, 0xFF, 1, 2, 3] idle)
       = (Inr [], idle)
   \<and> length (pending (ls_reader (fresh [0x0A] idle :: unit loop_state))) = 1
   \<and> fst (Decode_loop (NewSilkDecoder (Some ten_samples)) 1 (fresh [0x0A] idle))
       = Inl (ReadBlockSizeFailed ErrUnexpectedEOF)"
  using clean_end_of_loop [of "NewSilkDecoder (Some ten_samples)" 1
      "fresh [0xFF, 0xFF, 1, 2, 3] idle"]
    clean_end_of_loop [of "NewSilkDecoder (Some ten_samples)" 1 "fresh [0x0A] idle"]
  by (simp add: fresh_simps le_int16.simps)

text \<open>
  Claim C2 as stated fails: with the two bytes of a length field 10 and nothing after
  them the loop ends cleanly, although the length field was read whole and is not
  negative; and a source that ends after one byte of the length field is an error.
\<close>

theorem clean_end_on_missing_payload:
  "fst (Decode_iter (NewSilkDecoder (Some ten_samples)) 1 (fresh [0x0A, 0x00] idle)) = Break
   \<and> fst (binary_Read_int16 \<lparr>pending = [0x0A, 0x00], at_end = EOF\<rparr>) = Inr 10
   \<and> \<not> sint (10 :: int16) < 0
   \<and> fst (Decode_iter (NewSilkDecoder (Some ten_samples)) 1 (fresh [0x0A] idle))
       = Return (ReadBlockSizeFailed ErrUnexpectedEOF)"
proof -
  let ?s = "NewSilkDecoder (Some ten_samples)"
  have "fst (Decode_iter ?s 1 (fresh [0x0A, 0x00] idle)) = Break"
    using Decode_iter_no_payload [of "fresh [0x0A, 0x00] idle" "0x0A" "0x00" ?s 1]
    by (simp add: fresh_simps le_int16_examples)
  moreover have "fst (binary_Read_int16 \<lparr>pending = [0x0A, 0x00], at_end = EOF\<rparr>) = Inr 10"
    using binary_Read_int16_full [of "\<lparr>pending = [0x0A, 0x00], at_end = EOF\<rparr>" "0x0A" "0x00" "[]"]
    by (simp add: le_int16_examples)
  moreover have "fst (Decode_iter ?s 1 (fresh [0x0A] idle))
      = Return (ReadBlockSizeFailed ErrUnexpectedEOF)"
    using Decode_iter_half_length [of "fresh [0x0A] idle" "0x0A" ?s 1]
    by (simp add: fresh_simps)
  ultimately show ?thesis by simp
qed

text \<open>The magic and a footer, with and without the marker; and \<^verbatim>\<open>#!SILK_V2\<close>.\<close>

theorem marker_transparent_witness:
  "take 9 (Header @ [0xFF, 0xFF]) = Header
   \<and> SilkToWav (Some ten_samples) \<lparr>pending = STX # Header @ [0xFF, 0xFF], at_end = EOF\<rparr> idle
       = SilkToWav (Some ten_samples) \<lparr>pending = Header @ [0xFF, 0xFF], at_end = EOF\<rparr> idle
   \<and> take 9 (bytes_of_string ''#!SILK_V2'') \<noteq> Header
   \<and> take 1 (bytes_of_string ''#!SILK_V2'') \<noteq> [STX]
   \<and> (\<exists>err. fst (checkHeader \<lparr>pending = bytes_of_string ''#!SILK_V2'', at_end = EOF\<rparr>) = Some err
         \<and> is_header_error err
         \<and> SilkToWav (Some ten_samples) \<lparr>pending = bytes_of_string ''#!SILK_V2'', at_end = EOF\<rparr> idle
             = (Inl err, idle))
   \<and> (\<exists>err. fst (checkHeader \<lparr>pending = STX # bytes_of_string ''#!SILK_V2'', at_end = EOF\<rparr>)
           = Some err
         \<and> is_header_error err
         \<and> SilkToWav (Some ten_samples)
              \<lparr>pending = STX # bytes_of_string ''#!SILK_V2'', at_end = EOF\<rparr> idle
             = (Inl err, idle))"
proof -
  have h: "take 9 (Header @ [0xFF, 0xFF]) = Header"
    "take 9 (bytes_of_string ''#!SILK_V2'') \<noteq> Header"
    "take 1 (bytes_of_string ''#!SILK_V2'') \<noteq> [STX]"
    by (simp_all add: Header_bytes bytes_of_string_def byte_of_char_def STX_def)
  show ?thesis
    using h marker_transparent_and_bad_header_rejected [of "Header @ [0xFF, 0xFF]"
        "Some ten_samples" EOF idle "bytes_of_string ''#!SILK_V2''" "bytes_of_string ''#!SILK_V2''"]
    by blast
qed

text \<open>The marker followed by the magic.\<close>

theorem invalid_first_byte_unreachable_witness:
  "Peek1 \<lparr>pending = STX # Header, at_end = EOF\<rparr> = Inr STX
   \<and> fst (ReadByte \<lparr>pending = STX # Header, at_end = EOF\<rparr>) = Inr STX
   \<and> fst (checkHeader \<lparr>pending = STX # Header, at_end = EOF\<rparr>) = None"
proof -
  have "Peek1 \<lparr>pending = STX # Header, at_end = EOF\<rparr> = Inr STX"
    by (simp add: Peek1_def)
  moreover have "fst (checkHeader \<lparr>pending = STX # Header, at_end = EOF\<rparr>) = None"
    using checkHeader_ok_marker [of Header EOF] by (simp add: Header_bytes)
  ultimately show ?thesis
    using invalid_first_byte_unreachable [of "\<lparr>pending = STX # Header, at_end = EOF\<rparr>"]
    by blast
qed

text \<open>A block of four bytes for which the library reports 10 samples: 20 bytes appended.\<close>

theorem decoded_block_append_witness:
  "sint (le_int16 [4, 0]) = 4
   \<and> call_Decode ten_samples 1 [1, 2, 3, 4] 4 (replicate (frameSize * 2) 0) 4 ()
       = (False, replicate 20 0x11, 10, ())
   \<and> fst (Decode_iter (NewSilkDecoder (Some ten_samples)) 1
            (fresh [4, 0, 1, 2, 3, 4, 0xFF, 0xFF] idle)) = Continue
   \<and> length (ls_out (snd (Decode_iter (NewSilkDecoder (Some ten_samples)) 1
                            (fresh [4, 0, 1, 2, 3, 4, 0xFF, 0xFF] idle)))) = 20"
proof -
  let ?st = "fresh [4, 0, 1, 2, 3, 4, 0xFF, 0xFF] idle"
  have call: "call_Decode ten_samples 1 (take 4 [1, 2, 3, 4, 0xFF, 0xFF]) (word_of_nat 4)
      (ls_buf ?st) (le_int16 [4, 0]) (native (ls_proc ?st)) = (False, replicate 20 0x11, 10, ())"
    by (simp add: ten_samples_def stub_call_Decode)
  have k: "(4::nat) = nat (sint (le_int16 [4, 0]))" "0 < sint (le_int16 [4, 0])"
    by (simp_all add: le_int16_examples)
  have d: "dll (NewSilkDecoder (Some ten_samples)) = Some ten_samples"
    "has_proc ten_samples ''Decode''"
    by (simp_all add: ten_samples_def stub_call_Decode)
  have kl: "(4::nat) \<le> length [1, 2, 3, 4, 0xFF, 0xFF :: byte]"
    by simp
  note w = decoded_block_append [of ?st 4 0 "[1, 2, 3, 4, 0xFF, 0xFF]" "le_int16 [4, 0]" 4
      "NewSilkDecoder (Some ten_samples)" ten_samples 1 "replicate 20 0x11" 10 "()",
      OF fresh_simps(1) refl k(2) k(1) kl d fresh_simps(6) call]
  have "call_Decode ten_samples 1 [1, 2, 3, 4] 4 (replicate (frameSize * 2) 0) 4 ()
       = (False, replicate 20 0x11, 10, ())"
    by (simp add: ten_samples_def stub_call_Decode)
  moreover have cnd: "(0 \<le> sint (10 :: int16) \<and> sint (10 :: int16) \<le> 1920)
      \<or> sint (10 :: int16) \<le> - 30848"
    by simp
  moreover have "fst (Decode_iter (NewSilkDecoder (Some ten_samples)) 1 ?st) = Continue"
    "length (ls_out (snd (Decode_iter (NewSilkDecoder (Some ten_samples)) 1 ?st)))
      = length (ls_out ?st) + nat (sint (10 * 2 :: int16))"
    using w [unfolded if_P [OF cnd]] by blast+
  ultimately show ?thesis
    by (simp add: fresh_simps le_int16_examples)
qed

text \<open>
  Claim C10 as stated fails: a reported count of \<open>-32768\<close> is not between 0 and 1920,
  its double wraps to 0, and the append is in bounds: \<^verbatim>\<open>Decode\<close> returns without a
  panic.
\<close>

theorem wrapped_count_appends_in_bounds:
  "sint (0x8000 :: int16) = - 32768
   \<and> \<not> (0 \<le> sint (0x8000 :: int16) \<and> sint (0x8000 :: int16) \<le> 1920)
   \<and> call_Decode wrapping_count 1 [1, 2, 3, 4] 4 (replicate (frameSize * 2) 0) 4 ()
       = (False, replicate 20 0x11, 0x8000, ())
   \<and> Decode (NewSilkDecoder (Some wrapping_count))
        \<lparr>pending = Header @ [4, 0, 1, 2, 3, 4, 0xFF, 0xFF], at_end = EOF\<rparr> idle
       = (Inr [],
          \<lparr>native = (),
           trace = [CallCreateDecoder, CallSetSampleRate 1 16000, CallSetFramesPerPacket 1 1,
                    CallDecode 1 [1, 2, 3, 4] 4 4]\<rparr>)"
proof -
  have z: "sint (0x8000 * 2 :: int16) = 0"
    by simp
  have "Decode (NewSilkDecoder (Some wrapping_count))
        \<lparr>pending = Header @ [4, 0, 1, 2, 3, 4, 0xFF, 0xFF], at_end = EOF\<rparr> idle
       = (Inr [],
          \<lparr>native = (),
           trace = [CallCreateDecoder, CallSetSampleRate 1 16000, CallSetFramesPerPacket 1 1,
                    CallDecode 1 [1, 2, 3, 4] 4 4]\<rparr>)"
    unfolding wrapping_count_def Decode_stub_fresh
    using stub_block_then_footer [of "0x8000" "replicate 20 0x11"]
    by (simp add: z idle_def logged_def)
  moreover have "call_Decode wrapping_count 1 [1, 2, 3, 4] 4 (replicate (frameSize * 2) 0) 4 ()
       = (False, replicate 20 0x11, 0x8000, ())"
    by (simp add: wrapping_count_def stub_call_Decode)
  ultimately show ?thesis by simp
qed


end
